theory Spec2Isabelle
  imports Complex_Main "HOL-Library.Sublist"
begin

section \<open>Strings\<close>

text \<open>
  The scraper is TypeScript; its strings are sequences of UTF-16 code units. The model
  uses \<open>string\<close> (a list of 8-bit characters), so it covers the strings whose code units
  are below 256 (Latin-1). On that range \<open>toLowerCase\<close> changes \<open>A..Z\<close> and the accented
  capitals \<open>0xC0..0xDE\<close> (without the multiplication sign \<open>0xD7\<close>), and the white space
  of \<open>\s\<close> and of \<open>trim\<close> is tab, line feed, vertical tab, form feed, carriage return,
  space and the no-break space \<open>0xA0\<close>.
\<close>

definition nl :: char where
  "nl = CHR 0x0A"

definition is_space :: "char \<Rightarrow> bool" where
  "is_space c = (c = CHR 0x09 \<or> c = CHR 0x0A \<or> c = CHR 0x0B \<or> c = CHR 0x0C \<or>
                 c = CHR 0x0D \<or> c = CHR 0x20 \<or> c = CHR 0xA0)"

definition toLowerCase_char :: "char \<Rightarrow> char" where
  "toLowerCase_char c =
     (let n = (of_char c :: nat)
      in if (65 \<le> n \<and> n \<le> 90) \<or> (192 \<le> n \<and> n \<le> 222 \<and> n \<noteq> 215)
         then char_of (n + 32) else c)"

definition toLowerCase :: "string \<Rightarrow> string" where
  "toLowerCase s = map toLowerCase_char s"

text \<open>\<open>s.includes(k)\<close>: \<open>k\<close> occurs in \<open>s\<close> as a contiguous run.\<close>

fun js_includes :: "string \<Rightarrow> string \<Rightarrow> bool" where
  "js_includes [] k = (k = [])"
| "js_includes (c # cs) k = (prefix k (c # cs) \<or> js_includes cs k)"

text \<open>\<open>s.trim()\<close>.\<close>

definition trim :: "string \<Rightarrow> string" where
  "trim s = rev (dropWhile is_space (rev (dropWhile is_space s)))"

text \<open>\<open>s.split(d)\<close> for a one-character separator: the empty string gives one empty part.\<close>

fun split_on :: "char \<Rightarrow> string \<Rightarrow> string list" where
  "split_on d [] = [[]]"
| "split_on d (c # cs) =
     (if c = d then [] # split_on d cs
      else (case split_on d cs of [] \<Rightarrow> [[c]] | p # ps \<Rightarrow> (c # p) # ps))"

section \<open>The sanitizer: \<open>cleanTextHelper\<close>\<close>

text \<open>
  \<open>replace(/<[^>]*>/g, '')\<close>: scanning from the left, a \<open><\<close> that has a \<open>>\<close> somewhere
  after it is removed together with everything up to the first such \<open>>\<close> (the negated
  class also matches line breaks); every other character is kept.
\<close>

function strip_tags :: "string \<Rightarrow> string" where
  "strip_tags [] = []"
| "strip_tags (c # cs) =
     (if c = CHR ''<'' \<and> CHR ''>'' \<in> set cs
      then strip_tags (tl (dropWhile (\<lambda>x. x \<noteq> CHR ''>'') cs))
      else c # strip_tags cs)"
  by pat_completeness auto
termination
proof (relation "measure length")
  show "wf (measure (length :: string \<Rightarrow> nat))" by simp
next
  fix c :: char and cs :: string
  have "length (tl (dropWhile (\<lambda>x. x \<noteq> CHR ''>'') cs)) \<le> length cs"
    using length_dropWhile_le [of "\<lambda>x. x \<noteq> CHR ''>''" cs] by simp
  then show "(tl (dropWhile (\<lambda>x. x \<noteq> CHR ''>'') cs), c # cs) \<in> measure length"
    by simp
next
  fix c :: char and cs :: string
  show "(cs, c # cs) \<in> measure length" by simp
qed

text \<open>
  \<open>replace(/^<[^>]*/, '')\<close>: a leading \<open><\<close> is removed with the run of characters other
  than \<open>>\<close> that follows it.
\<close>

definition strip_open_start :: "string \<Rightarrow> string" where
  "strip_open_start s =
     (case s of [] \<Rightarrow> []
      | c # cs \<Rightarrow> if c = CHR ''<'' then dropWhile (\<lambda>x. x \<noteq> CHR ''>'') cs else s)"

text \<open>
  \<open>replace(/[^<]*>$/, '')\<close>: only when the string ends in \<open>>\<close>; the leftmost match starts
  right after the last \<open><\<close> (at the start of the string when there is none) and runs to
  the end, so what remains is the string up to and including its last \<open><\<close>.
\<close>

definition strip_close_end :: "string \<Rightarrow> string" where
  "strip_close_end s =
     (if s \<noteq> [] \<and> last s = CHR ''>''
      then rev (dropWhile (\<lambda>x. x \<noteq> CHR ''<'') (rev s))
      else s)"

text \<open>\<open>replace(/[<>]/g, '')\<close>.\<close>

definition remove_angle :: "string \<Rightarrow> string" where
  "remove_angle s = filter (\<lambda>x. x \<noteq> CHR ''<'' \<and> x \<noteq> CHR ''>'') s"

text \<open>The two rejection tests on the lower-cased raw text, in the source's order.\<close>

definition suspicious :: "string \<Rightarrow> bool" where
  "suspicious lowerText =
     (js_includes lowerText ''script'' \<or>
      js_includes lowerText ''iframe'' \<or>
      js_includes lowerText ''onclick'' \<or>
      js_includes lowerText ''onerror'' \<or>
      js_includes lowerText ''onload'')"

definition ui_text :: "string \<Rightarrow> bool" where
  "ui_text lowerText =
     (js_includes lowerText ''add to board'' \<or>
      js_includes lowerText ''copy link'' \<or>
      js_includes lowerText ''copy embed'' \<or>
      js_includes lowerText ''google tag manager'' \<or>
      js_includes lowerText ''smartframe content partner'')"

definition clean_steps :: "string \<Rightarrow> string" where
  "clean_steps text =
     trim (remove_angle (strip_close_end (strip_open_start (strip_tags text))))"

text \<open>
  \<open>cleanTextHelper(text: string | null): string | null\<close>. \<open>None\<close> is \<open>null\<close>; the empty
  string is falsy, so \<open>!text\<close> and \<open>cleaned || null\<close> both turn it into \<open>null\<close>.
\<close>

definition cleanTextHelper :: "string option \<Rightarrow> string option" where
  "cleanTextHelper text =
     (case text of
        None \<Rightarrow> None
      | Some t \<Rightarrow>
          if t = [] then None
          else let lowerText = toLowerCase t in
            if suspicious lowerText then None
            else if ui_text lowerText then None
            else let cleaned = clean_steps t in
              if length cleaned > 200 then None
              else if length (split_on nl cleaned) > 3 then None
              else if cleaned = [] then None
              else Some cleaned)"

section \<open>Metadata records\<close>

text \<open>
  \<open>Partial<ScrapedImage>\<close> as \<open>parseMetadata\<close> builds it: the seven nullable metadata
  fields. \<open>ScrapedImage\<close> (shared/schema.ts) extends it with the identity fields and the
  thumbnail. \<open>None\<close> is \<open>null\<close>.
\<close>

record Metadata =
  photographer :: "string option"
  imageSize :: "string option"
  fileSize :: "string option"
  country :: "string option"
  city :: "string option"
  date :: "string option"
  matchEvent :: "string option"

record ScrapedImage = Metadata +
  imageId :: string
  hash :: string
  url :: string
  copyLink :: string
  smartframeId :: string
  thumbnailUrl :: "string option"

datatype Field = Photographer | ImageSize | FileSize | Country | City | Date | MatchEvent

fun field :: "Field \<Rightarrow> 'a Metadata_scheme \<Rightarrow> string option" where
  "field Photographer r = photographer r"
| "field ImageSize r = imageSize r"
| "field FileSize r = fileSize r"
| "field Country r = country r"
| "field City r = city r"
| "field Date r = date r"
| "field MatchEvent r = matchEvent r"

text \<open>
  JavaScript truthiness of a nullable string: \<open>null\<close>, \<open>undefined\<close> and the empty string
  are falsy. \<open>a || b\<close> is \<open>a\<close> when \<open>a\<close> is truthy and \<open>b\<close> otherwise.
\<close>

definition truthy :: "string option \<Rightarrow> bool" where
  "truthy a = (case a of None \<Rightarrow> False | Some s \<Rightarrow> s \<noteq> [])"

definition js_or :: "string option \<Rightarrow> string option \<Rightarrow> string option" where
  "js_or a b = (if truthy a then a else b)"

section \<open>Tier 0: the network cache\<close>

text \<open>
  An entry of \<open>metadataCache\<close>: the keys of the intercepted JSON payload that
  \<open>extractImageData\<close> reads, each a string or absent (\<open>location_country\<close> and
  \<open>location_city\<close> stand for \<open>location?.country\<close> and \<open>location?.city\<close>).
\<close>

record CachedData =
  c_photographer :: "string option"
  c_credit :: "string option"
  c_author :: "string option"
  c_dimensions :: "string option"
  c_size :: "string option"
  c_imageSize :: "string option"
  c_fileSize :: "string option"
  c_file_size :: "string option"
  c_country :: "string option"
  c_location_country :: "string option"
  c_city :: "string option"
  c_location_city :: "string option"
  c_date :: "string option"
  c_dateCreated :: "string option"
  c_created_at :: "string option"
  c_title :: "string option"
  c_event :: "string option"
  c_description :: "string option"

definition map_cached :: "CachedData \<Rightarrow> ScrapedImage \<Rightarrow> ScrapedImage" where
  "map_cached cachedData img = img
     \<lparr> photographer := js_or (c_photographer cachedData)
                         (js_or (c_credit cachedData) (js_or (c_author cachedData) None)),
       imageSize := js_or (c_dimensions cachedData)
                      (js_or (c_size cachedData) (js_or (c_imageSize cachedData) None)),
       fileSize := js_or (c_fileSize cachedData) (js_or (c_file_size cachedData) None),
       country := js_or (c_country cachedData) (js_or (c_location_country cachedData) None),
       city := js_or (c_city cachedData) (js_or (c_location_city cachedData) None),
       date := js_or (c_date cachedData)
                 (js_or (c_dateCreated cachedData) (js_or (c_created_at cachedData) None)),
       matchEvent := js_or (c_title cachedData)
                       (js_or (c_event cachedData) (js_or (c_description cachedData) None)) \<rparr>"

section \<open>Tiers 1 to 3: \<open>parseMetadata\<close>\<close>

text \<open>
  The raw data that \<open>page.evaluate\<close> returns from a detail page: the text of the \<open>h1\<close>,
  the caption paragraph, the (label, value) pairs of the list entries (both non-empty),
  and the metadata object of the \<open>__NEXT_DATA__\<close> script when it parsed.
\<close>

record NextData =
  nd_photographer :: "string option"
  nd_dimensions :: "string option"
  nd_fileSize :: "string option"
  nd_country :: "string option"
  nd_city :: "string option"
  nd_date :: "string option"
  nd_eventTitle :: "string option"
  nd_title :: "string option"
  nd_caption :: "string option"

record RawData =
  rd_title :: "string option"
  rd_caption :: "string option"
  labelValues :: "(string \<times> string) list"
  nextData :: "NextData option"

definition empty_result :: Metadata where
  "empty_result = \<lparr> photographer = None, imageSize = None, fileSize = None, country = None,
                     city = None, date = None, matchEvent = None \<rparr>"

text \<open>One pass of the loop over \<open>rawData.labelValues\<close>: the \<open>switch\<close> on the lower-cased label.\<close>

definition label_step :: "string \<times> string \<Rightarrow> Metadata \<Rightarrow> Metadata" where
  "label_step item result =
     (let label = toLowerCase (fst item);
          v = cleanTextHelper (Some (snd item))
      in if \<not> truthy v then result
         else if label = ''photographer'' \<or> label = ''credit''
           then result\<lparr>photographer := js_or (photographer result) v\<rparr>
         else if label = ''image size'' \<or> label = ''size'' \<or> label = ''dimensions''
           then result\<lparr>imageSize := js_or (imageSize result) v\<rparr>
         else if label = ''file size''
           then result\<lparr>fileSize := js_or (fileSize result) v\<rparr>
         else if label = ''country''
           then result\<lparr>country := js_or (country result) v\<rparr>
         else if label = ''city'' \<or> label = ''location''
           then result\<lparr>city := js_or (city result) v\<rparr>
         else if label = ''date'' \<or> label = ''date taken''
           then result\<lparr>date := js_or (date result) v\<rparr>
         else if label = ''event'' \<or> label = ''title'' \<or> label = ''caption'' \<or>
                 label = ''description''
           then result\<lparr>matchEvent := js_or (matchEvent result) v\<rparr>
         else result)"

text \<open>
  The label list, then \<open>result.matchEvent = result.matchEvent || title || caption\<close>
  with the sanitized title and caption.
\<close>

definition structured_parse :: "RawData \<Rightarrow> Metadata \<Rightarrow> Metadata" where
  "structured_parse rawData result =
     (let title = cleanTextHelper (rd_title rawData);
          caption = cleanTextHelper (rd_caption rawData);
          r = fold label_step (labelValues rawData) result
      in r\<lparr>matchEvent := js_or (js_or (matchEvent r) title) caption\<rparr>)"

text \<open>
  The caption regexes \<open>/(?:L1|L2):\s*([^\/\n]+)/i\<close>. The group \<open>[^\/\n]+\<close> is the longest
  non-empty run without a slash or a line feed. \<open>\s*\<close> is greedy and gives white space
  back when the group cannot start after it. A label (written in lower case, with its
  colon) is compared without regard to ASCII case. \<open>match\<close> returns the leftmost match;
  the result here is its group 1.
\<close>

definition capture_group :: "string \<Rightarrow> string option" where
  "capture_group s =
     (let g = takeWhile (\<lambda>c. c \<noteq> CHR ''/'' \<and> c \<noteq> nl) s
      in if g = [] then None else Some g)"

fun spaces_then_group :: "string \<Rightarrow> string option" where
  "spaces_then_group [] = None"
| "spaces_then_group (c # cs) =
     (if is_space c
      then (case spaces_then_group cs of
              Some g \<Rightarrow> Some g
            | None \<Rightarrow> capture_group (c # cs))
      else capture_group (c # cs))"

fun match_labels_at :: "string list \<Rightarrow> string \<Rightarrow> string option" where
  "match_labels_at [] s = None"
| "match_labels_at (l # ls) s =
     (if prefix l (toLowerCase s)
      then (case spaces_then_group (drop (length l) s) of
              Some g \<Rightarrow> Some g
            | None \<Rightarrow> match_labels_at ls s)
      else match_labels_at ls s)"

fun regex_match :: "string list \<Rightarrow> string \<Rightarrow> string option" where
  "regex_match ls [] = None"
| "regex_match ls (c # cs) =
     (case match_labels_at ls (c # cs) of
        Some g \<Rightarrow> Some g
      | None \<Rightarrow> regex_match ls cs)"

text \<open>\<open>parts[i]\<close> of an array: \<open>undefined\<close> (here \<open>None\<close>) past the end.\<close>

definition at_index :: "'a list \<Rightarrow> nat \<Rightarrow> 'a option" where
  "at_index xs i = (if i < length xs then Some (xs ! i) else None)"

text \<open>The four blocks under \<open>if (caption)\<close>, in the source's order.\<close>

definition credit_line :: "string \<Rightarrow> Metadata \<Rightarrow> Metadata" where
  "credit_line caption result =
     (if \<not> truthy (photographer result)
      then (case regex_match [''credit:'', ''photographer:''] caption of
              Some g \<Rightarrow> result\<lparr>photographer := cleanTextHelper (Some g)\<rparr>
            | None \<Rightarrow> result)
      else result)"

definition where_line :: "string \<Rightarrow> Metadata \<Rightarrow> Metadata" where
  "where_line caption result =
     (if \<not> truthy (city result) \<and> \<not> truthy (country result)
      then (case regex_match [''where:''] caption of
              Some g \<Rightarrow>
                (let location = cleanTextHelper (Some g)
                 in if truthy location \<and> CHR '','' \<in> set (the location)
                    then (let parts = map trim (split_on CHR '','' (the location))
                          in result\<lparr>city := cleanTextHelper (at_index parts 0),
                                    country := cleanTextHelper (at_index parts 1)\<rparr>)
                    else result\<lparr>city := location\<rparr>)
            | None \<Rightarrow> result)
      else result)"

definition when_line :: "string \<Rightarrow> Metadata \<Rightarrow> Metadata" where
  "when_line caption result =
     (if \<not> truthy (date result)
      then (case regex_match [''when:''] caption of
              Some g \<Rightarrow> result\<lparr>date := cleanTextHelper (Some g)\<rparr>
            | None \<Rightarrow> result)
      else result)"

definition featuring_line :: "string \<Rightarrow> Metadata \<Rightarrow> Metadata" where
  "featuring_line caption result =
     (if \<not> truthy (matchEvent result)
      then (case regex_match [''featuring:''] caption of
              Some g \<Rightarrow> result\<lparr>matchEvent := cleanTextHelper (Some g)\<rparr>
            | None \<Rightarrow> result)
      else result)"

definition caption_fallback :: "RawData \<Rightarrow> Metadata \<Rightarrow> Metadata" where
  "caption_fallback rawData result =
     (let caption = cleanTextHelper (rd_caption rawData)
      in if truthy caption
         then featuring_line (the caption)
                (when_line (the caption)
                  (where_line (the caption)
                    (credit_line (the caption) result)))
         else result)"

text \<open>The block under \<open>if (rawData.nextData)\<close>.\<close>

definition hydration_json :: "RawData \<Rightarrow> Metadata \<Rightarrow> Metadata" where
  "hydration_json rawData result =
     (case nextData rawData of
        None \<Rightarrow> result
      | Some nd \<Rightarrow> result
          \<lparr> photographer := js_or (photographer result) (cleanTextHelper (nd_photographer nd)),
            imageSize := js_or (imageSize result) (cleanTextHelper (nd_dimensions nd)),
            fileSize := js_or (fileSize result) (cleanTextHelper (nd_fileSize nd)),
            country := js_or (country result) (cleanTextHelper (nd_country nd)),
            city := js_or (city result) (cleanTextHelper (nd_city nd)),
            date := js_or (date result) (cleanTextHelper (nd_date nd)),
            matchEvent := js_or (matchEvent result)
              (cleanTextHelper (js_or (nd_eventTitle nd) (js_or (nd_title nd) (nd_caption nd)))) \<rparr>)"

definition parseMetadata :: "RawData \<Rightarrow> Metadata" where
  "parseMetadata rawData =
     hydration_json rawData (caption_fallback rawData (structured_parse rawData empty_result))"

section \<open>Navigation with retries\<close>

text \<open>
  The effects of a navigation loop are recorded as a trace: each \<open>page.goto\<close> with its
  \<open>waitUntil\<close> option and timeout (ms), and each \<open>setTimeout\<close> delay (ms). The browser is
  an oracle \<open>goto\<close>: for the attempt number it gives \<open>None\<close> when \<open>page.goto\<close> resolves and
  the error message when it rejects.
\<close>

datatype WaitUntil = networkidle2 | domcontentloaded

datatype Action = Goto string WaitUntil nat | Delay nat

datatype 'a outcome = Returns 'a | Throws string

definition maxAttempts :: nat where
  "maxAttempts = 3"

text \<open>
  The listing page (\<open>scrape\<close>): \<open>while (attempts < maxAttempts && !navigationSuccess)\<close>.
  The last failure is rethrown; the earlier ones wait \<open>2000 * attempts\<close>.
\<close>

function listing_navigation ::
  "(nat \<Rightarrow> string option) \<Rightarrow> string \<Rightarrow> nat \<Rightarrow> bool \<Rightarrow> Action list \<Rightarrow> unit outcome \<times> Action list"
where
  "listing_navigation goto target attempts navigationSuccess trace =
     (if attempts < maxAttempts \<and> \<not> navigationSuccess
      then (case goto (attempts + 1) of
              None \<Rightarrow>
                listing_navigation goto target (attempts + 1) True
                  (trace @ [Goto target networkidle2 60000])
            | Some err \<Rightarrow>
                if attempts + 1 = maxAttempts
                then (Throws err, trace @ [Goto target networkidle2 60000])
                else listing_navigation goto target (attempts + 1) navigationSuccess
                       (trace @ [Goto target networkidle2 60000, Delay (2000 * (attempts + 1))]))
      else (Returns (), trace))"
  by pat_completeness auto
termination
  by (relation "measure (\<lambda>(goto, target, attempts, navigationSuccess, trace). maxAttempts - attempts)")
    auto

declare listing_navigation.simps [simp del]

text \<open>
  A detail page (\<open>extractImageData\<close>): \<open>for (let attempt = 1; attempt <= 2; attempt++)\<close>.
  The result is \<open>navSuccess\<close>; after the second failure the source returns the image
  instead of throwing. A failed first attempt waits 2000.
\<close>

function detail_navigation ::
  "(nat \<Rightarrow> string option) \<Rightarrow> string \<Rightarrow> nat \<Rightarrow> Action list \<Rightarrow> bool \<times> Action list"
where
  "detail_navigation goto target attempt trace =
     (if attempt \<le> 2
      then (case goto attempt of
              None \<Rightarrow> (True, trace @ [Goto target domcontentloaded 60000])
            | Some err \<Rightarrow>
                if attempt = 2
                then (False, trace @ [Goto target domcontentloaded 60000])
                else detail_navigation goto target (attempt + 1)
                       (trace @ [Goto target domcontentloaded 60000, Delay 2000]))
      else (False, trace))"
  by pat_completeness auto
termination
  by (relation "measure (\<lambda>(goto, target, attempt, trace). 3 - attempt)") auto

declare detail_navigation.simps [simp del]

section \<open>The per-item extraction: \<open>extractImageData\<close>\<close>

text \<open>
  What the browser does on one detail page: whether \<open>setViewport\<close> rejects, the outcome of
  each \<open>goto\<close> attempt, and what \<open>page.evaluate\<close> returns (the raw data) or throws. The wait
  for \<open>li strong\<close> is caught in either case and changes no data.
\<close>

record DetailPage =
  setViewport_error :: "string option"
  goto_error :: "nat \<Rightarrow> string option"
  evaluate_result :: "RawData outcome"

definition initial_image :: "string \<Rightarrow> string \<Rightarrow> string \<Rightarrow> string option \<Rightarrow> ScrapedImage" where
  "initial_image url0 imageId0 hash0 thumbnailUrl0 =
     \<lparr> photographer = None, imageSize = None, fileSize = None, country = None, city = None,
       date = None, matchEvent = None,
       imageId = imageId0, hash = hash0, url = url0, copyLink = url0, smartframeId = imageId0,
       thumbnailUrl = js_or thumbnailUrl0 None \<rparr>"

text \<open>\<open>image.f = image.f || (metadata.f ?? null)\<close> for the seven fields.\<close>

definition merge_metadata :: "Metadata \<Rightarrow> ScrapedImage \<Rightarrow> ScrapedImage" where
  "merge_metadata metadata img = img
     \<lparr> photographer := js_or (photographer img) (photographer metadata),
       imageSize := js_or (imageSize img) (imageSize metadata),
       fileSize := js_or (fileSize img) (fileSize metadata),
       country := js_or (country img) (country metadata),
       city := js_or (city img) (city metadata),
       date := js_or (date img) (date metadata),
       matchEvent := js_or (matchEvent img) (matchEvent metadata) \<rparr>"

text \<open>The body of the \<open>try\<close> block under \<open>if (extractDetails)\<close>.\<close>

definition extract_details :: "DetailPage \<Rightarrow> string \<Rightarrow> ScrapedImage \<Rightarrow> ScrapedImage outcome" where
  "extract_details page url0 img =
     (case setViewport_error page of
        Some err \<Rightarrow> Throws err
      | None \<Rightarrow>
          if \<not> fst (detail_navigation (goto_error page) url0 1 []) then Returns img
          else (case evaluate_result page of
                  Throws err \<Rightarrow> Throws err
                | Returns rawData \<Rightarrow> Returns (merge_metadata (parseMetadata rawData) img)))"

text \<open>
  \<open>extractImageData\<close>: the image with the identity fields, the cache entry mapped onto it
  when there is one, then the detail extraction; the \<open>catch\<close> logs the error and the
  function returns the image as it stands.
\<close>

definition cached_image ::
  "(string \<rightharpoonup> CachedData) \<Rightarrow> string \<Rightarrow> string \<Rightarrow> string \<Rightarrow> string option \<Rightarrow> ScrapedImage" where
  "cached_image metadataCache url0 imageId0 hash0 thumbnailUrl0 =
     (case metadataCache imageId0 of
        Some cachedData \<Rightarrow> map_cached cachedData (initial_image url0 imageId0 hash0 thumbnailUrl0)
      | None \<Rightarrow> initial_image url0 imageId0 hash0 thumbnailUrl0)"

definition extractImageData ::
  "(string \<rightharpoonup> CachedData) \<Rightarrow> DetailPage \<Rightarrow> string \<Rightarrow> string \<Rightarrow> string \<Rightarrow> bool \<Rightarrow>
   string option \<Rightarrow> ScrapedImage outcome" where
  "extractImageData metadataCache page url0 imageId0 hash0 extractDetails thumbnailUrl0 =
     (let img = cached_image metadataCache url0 imageId0 hash0 thumbnailUrl0
      in if extractDetails
         then (case extract_details page url0 img of
                 Throws err \<Rightarrow> Returns img
               | Returns r \<Rightarrow> Returns r)
         else Returns img)"


text \<open>
  The raw data that reaches \<open>parseMetadata\<close> in a run of \<open>extractImageData\<close>, if any:
  tiers 1 to 3 run only with \<open>extractDetails\<close>, after a successful navigation and a
  successful \<open>page.evaluate\<close>.
\<close>

definition parsed_raw :: "DetailPage \<Rightarrow> string \<Rightarrow> bool \<Rightarrow> RawData option" where
  "parsed_raw page url0 extractDetails =
     (if extractDetails \<and> setViewport_error page = None \<and>
         fst (detail_navigation (goto_error page) url0 1 [])
      then (case evaluate_result page of Returns rawData \<Rightarrow> Some rawData | Throws err \<Rightarrow> None)
      else None)"



section \<open>The job store: \<open>MemStorage\<close>\<close>

datatype Status = pending | scraping | completed | error

record ScrapeConfig =
  cfg_url :: string
  maxImages :: nat
  extractDetails :: bool
  sortBy :: string
  autoScroll :: bool
  scrollDelay :: nat

record ScrapeJob =
  job_id :: string
  job_url :: string
  status :: Status
  progress :: int
  totalImages :: nat
  scrapedImages :: nat
  images :: "ScrapedImage list"
  job_error :: "string option"
  startedAt :: string
  completedAt :: "string option"
  config :: ScrapeConfig

text \<open>
  \<open>Partial<ScrapeJob>\<close>: every key may be absent (\<open>None\<close>); the two nullable keys can be
  present with the value \<open>null\<close> (\<open>Some None\<close>).
\<close>

record JobUpdate =
  u_id :: "string option"
  u_url :: "string option"
  u_status :: "Status option"
  u_progress :: "int option"
  u_totalImages :: "nat option"
  u_scrapedImages :: "nat option"
  u_images :: "ScrapedImage list option"
  u_error :: "string option option"
  u_startedAt :: "string option"
  u_completedAt :: "string option option"
  u_config :: "ScrapeConfig option"

definition no_update :: JobUpdate where
  "no_update = \<lparr> u_id = None, u_url = None, u_status = None, u_progress = None,
     u_totalImages = None, u_scrapedImages = None, u_images = None, u_error = None,
     u_startedAt = None, u_completedAt = None, u_config = None \<rparr>"

text \<open>\<open>{ ...job, ...updates }\<close>: a key present in \<open>updates\<close> replaces the job's.\<close>

definition spread :: "ScrapeJob \<Rightarrow> JobUpdate \<Rightarrow> ScrapeJob" where
  "spread job updates =
     \<lparr> job_id = (case u_id updates of None \<Rightarrow> job_id job | Some v \<Rightarrow> v),
       job_url = (case u_url updates of None \<Rightarrow> job_url job | Some v \<Rightarrow> v),
       status = (case u_status updates of None \<Rightarrow> status job | Some v \<Rightarrow> v),
       progress = (case u_progress updates of None \<Rightarrow> progress job | Some v \<Rightarrow> v),
       totalImages = (case u_totalImages updates of None \<Rightarrow> totalImages job | Some v \<Rightarrow> v),
       scrapedImages = (case u_scrapedImages updates of None \<Rightarrow> scrapedImages job | Some v \<Rightarrow> v),
       images = (case u_images updates of None \<Rightarrow> images job | Some v \<Rightarrow> v),
       job_error = (case u_error updates of None \<Rightarrow> job_error job | Some v \<Rightarrow> v),
       startedAt = (case u_startedAt updates of None \<Rightarrow> startedAt job | Some v \<Rightarrow> v),
       completedAt = (case u_completedAt updates of None \<Rightarrow> completedAt job | Some v \<Rightarrow> v),
       config = (case u_config updates of None \<Rightarrow> config job | Some v \<Rightarrow> v) \<rparr>"

text \<open>
  \<open>createScrapeJob\<close> (the random id and the clock are parameters) and \<open>updateScrapeJob\<close>:
  the new store and the returned job (\<open>None\<close> is \<open>undefined\<close>).
\<close>

definition createScrapeJob ::
  "(string \<rightharpoonup> ScrapeJob) \<Rightarrow> string \<Rightarrow> string \<Rightarrow> string \<Rightarrow> ScrapeConfig \<Rightarrow>
   (string \<rightharpoonup> ScrapeJob) \<times> ScrapeJob" where
  "createScrapeJob scrapeJobs new_id clock target cfg =
     (let job = \<lparr> job_id = new_id, job_url = target, status = pending, progress = 0,
                   totalImages = 0, scrapedImages = 0, images = [], job_error = None,
                   startedAt = clock, completedAt = None, config = cfg \<rparr>
      in (scrapeJobs(new_id \<mapsto> job), job))"

definition updateScrapeJob ::
  "(string \<rightharpoonup> ScrapeJob) \<Rightarrow> string \<Rightarrow> JobUpdate \<Rightarrow> (string \<rightharpoonup> ScrapeJob) \<times> ScrapeJob option"
where
  "updateScrapeJob scrapeJobs jid updates =
     (case scrapeJobs jid of
        None \<Rightarrow> (scrapeJobs, None)
      | Some job \<Rightarrow>
          (let updatedJob = spread job updates
           in (scrapeJobs(jid \<mapsto> updatedJob), Some updatedJob)))"

text \<open>The store after a sequence of \<open>updateScrapeJob\<close> calls for one job.\<close>

definition apply_updates :: "(string \<rightharpoonup> ScrapeJob) \<Rightarrow> string \<Rightarrow> JobUpdate list \<Rightarrow> (string \<rightharpoonup> ScrapeJob)" where
  "apply_updates scrapeJobs jid ws = foldl (\<lambda>s w. fst (updateScrapeJob s jid w)) scrapeJobs ws"

section \<open>Link discovery\<close>

subsection \<open>\<open>collectPageImageLinks\<close>\<close>

text \<open>
  The part of the listing document that \<open>collectPageImageLinks\<close> reads: the
  \<open>smartframe-embed\<close> elements with their \<open>image-id\<close> and \<open>customer-id\<close> attributes, the
  resolved \<open>href\<close> of the anchors selected by \<open>a[href*="/search/image/"]\<close>, and the
  containers selected by \<open>[data-image-id], .sf-thumbnail\<close> with their three data
  attributes. An absent attribute is \<open>None\<close>.
\<close>

record Embed =
  image_id :: "string option"
  customer_id :: "string option"

record Container =
  data_image_id :: "string option"
  data_customer_id :: "string option"
  data_hash :: "string option"

record Document =
  embeds :: "Embed list"
  anchors :: "string list"
  containers :: "Container list"

record ImageLink =
  link_url :: string
  link_imageId :: string
  link_hash :: string

text \<open>
  \<open>href.match(/\/search\/image\/([^\/]+)\/([^\/\?]+)/)\<close>: the groups 1 and 2 of the
  leftmost match. At a position that starts with \<open>/search/image/\<close>, group 1 is the
  non-empty run up to the next slash and group 2 the non-empty run after that slash up
  to a slash or a question mark; shortening group 1 cannot help, so a position that fails
  this way fails.
\<close>

definition match_image_path_at :: "string \<Rightarrow> (string \<times> string) option" where
  "match_image_path_at s =
     (if prefix ''/search/image/'' s
      then (let rest = drop 14 s;
                g1 = takeWhile (\<lambda>c. c \<noteq> CHR ''/'') rest;
                after = dropWhile (\<lambda>c. c \<noteq> CHR ''/'') rest
            in if g1 = [] \<or> after = [] then None
               else (let g2 = takeWhile (\<lambda>c. c \<noteq> CHR ''/'' \<and> c \<noteq> CHR ''?'') (tl after)
                     in if g2 = [] then None else Some (g1, g2)))
      else None)"

fun match_image_path :: "string \<Rightarrow> (string \<times> string) option" where
  "match_image_path [] = None"
| "match_image_path (c # cs) =
     (case match_image_path_at (c # cs) of
        Some m \<Rightarrow> Some m
      | None \<Rightarrow> match_image_path cs)"

definition embed_step :: "Embed \<Rightarrow> ImageLink list \<Rightarrow> ImageLink list" where
  "embed_step el links =
     (if truthy (image_id el) \<and> truthy (customer_id el)
      then links @ [\<lparr> link_url = ''https://smartframe.com/search/image/'' @
                                  the (customer_id el) @ ''/'' @ the (image_id el),
                      link_imageId = the (image_id el),
                      link_hash = the (customer_id el) \<rparr>]
      else links)"

definition anchor_step :: "string \<Rightarrow> ImageLink list \<Rightarrow> ImageLink list" where
  "anchor_step href links =
     (case match_image_path href of
        Some (m1, m2) \<Rightarrow>
          if \<not> list_ex (\<lambda>l. link_imageId l = m2) links
          then links @ [\<lparr> link_url = href, link_imageId = m2, link_hash = m1 \<rparr>]
          else links
      | None \<Rightarrow> links)"

definition container_step :: "Container \<Rightarrow> ImageLink list \<Rightarrow> ImageLink list" where
  "container_step container links =
     (let hash_attr = js_or (data_customer_id container) (data_hash container)
      in if truthy (data_image_id container) \<and> truthy hash_attr \<and>
            \<not> list_ex (\<lambda>l. link_imageId l = the (data_image_id container)) links
         then links @ [\<lparr> link_url = ''https://smartframe.com/search/image/'' @
                                     the hash_attr @ ''/'' @ the (data_image_id container),
                         link_imageId = the (data_image_id container),
                         link_hash = the hash_attr \<rparr>]
         else links)"

definition collectPageImageLinks :: "Document \<Rightarrow> ImageLink list" where
  "collectPageImageLinks doc =
     fold container_step (containers doc)
       (fold anchor_step (anchors doc)
         (fold embed_step (embeds doc) []))"

subsection \<open>The accumulator \<open>discoveredLinks\<close>\<close>

text \<open>
  A JavaScript \<open>Map\<close> keeps its keys in insertion order; \<open>set\<close> on a key that is present
  replaces the value in place, on a new key it appends. \<open>values()\<close> follows that order.
\<close>

fun map_set :: "'k \<Rightarrow> 'v \<Rightarrow> ('k \<times> 'v) list \<Rightarrow> ('k \<times> 'v) list" where
  "map_set k v [] = [(k, v)]"
| "map_set k v ((k', v') # m) = (if k' = k then (k, v) # m else (k', v') # map_set k v m)"

definition map_values :: "('k \<times> 'v) list \<Rightarrow> 'v list" where
  "map_values m = map snd m"

text \<open>\<open>for (const link of links) discoveredLinks.set(link.imageId, link)\<close>.\<close>

definition add_links :: "ImageLink list \<Rightarrow> (string \<times> ImageLink) list \<Rightarrow> (string \<times> ImageLink) list" where
  "add_links links discoveredLinks =
     fold (\<lambda>link m. map_set (link_imageId link) link m) links discoveredLinks"

subsection \<open>\<open>autoScroll\<close>\<close>

text \<open>
  The listing page is a state of type \<open>'p\<close>; a site says what the scraper observes in a
  state and what its actions make of it:
  \<^item> \<open>page_url\<close>, \<open>img_count\<close>, \<open>scrollHeight\<close>: \<open>page.url()\<close>, the number of \<open>img\<close> elements,
    \<open>document.body.scrollHeight\<close>;
  \<^item> \<open>document\<close>: what \<open>collectPageImageLinks\<close> reads;
  \<^item> \<open>find_button\<close>: whether the search for a pagination control (the evaluated
    \<open>button, a\<close> scan, then the CSS selector list) yields an element;
  \<^item> \<open>click\<close>: scrolling that element into view, the 500 ms pause and the click; \<open>None\<close>
    when one of them throws (the source catches it and goes on);
  \<^item> \<open>scrollToBottom\<close> and \<open>wait ms\<close>: the page after \<open>window.scrollTo\<close> and after a delay.
\<close>

record 'p Site =
  page_url :: "'p \<Rightarrow> string"
  img_count :: "'p \<Rightarrow> nat"
  scrollHeight :: "'p \<Rightarrow> nat"
  document :: "'p \<Rightarrow> Document"
  find_button :: "'p \<Rightarrow> bool"
  click :: "'p \<Rightarrow> 'p option"
  scrollToBottom :: "'p \<Rightarrow> 'p"
  wait :: "nat \<Rightarrow> 'p \<Rightarrow> 'p"

text \<open>
  \<open>ScrapeProgress\<close>. The percentage is a JavaScript number; the model computes it with
  exact rationals, and \<open>Math.round\<close> rounds half up.
\<close>

record ScrapeProgress =
  p_percentage :: rat
  p_current :: nat
  p_total :: nat
  p_status :: string

definition Math_round :: "rat \<Rightarrow> int" where
  "Math_round x = \<lfloor>x + 1 / 2\<rfloor>"

text \<open>
  The loop variables of \<open>autoScroll\<close>, the page, and the state \<open>'s\<close> that the two
  callbacks work on. A page-state key \<open>currentUrl + '-' + imageCount\<close> is the pair.
\<close>

record ('p, 's) ScrollState =
  the_page :: 'p
  imageCount :: nat
  visitedPages :: "(string \<times> nat) set"
  justClickedPagination :: bool
  callback_state :: 's

datatype 'a loop_step = Continue 'a | Break 'a

datatype 'p click_result = Paginated 'p | NoChange 'p

text \<open>
  The \<open>try\<close> block around a click (it occurs twice in the source): click, wait
  \<open>scrollDelay + 2000\<close>, compare URL and image count with the values before the click.
\<close>

definition try_click :: "'p Site \<Rightarrow> nat \<Rightarrow> nat \<Rightarrow> 'p \<Rightarrow> 'p click_result" where
  "try_click st delay beforeClickImageCount p =
     (case click st p of
        None \<Rightarrow> NoChange p
      | Some p1 \<Rightarrow>
          (let p2 = wait st (delay + 2000) p1
           in if page_url st p2 \<noteq> page_url st p then Paginated p2
              else if img_count st p2 > beforeClickImageCount then Paginated p2
              else NoChange p2))"

definition click_if_found :: "'p Site \<Rightarrow> nat \<Rightarrow> nat \<Rightarrow> 'p \<Rightarrow> 'p click_result" where
  "click_if_found st delay beforeClickImageCount p =
     (if find_button st p then try_click st delay beforeClickImageCount p else NoChange p)"

text \<open>
  The patience rounds: \<open>for (let round = 1; round <= patienceRounds; round++)\<close>, here
  counted down. The result says whether the height grew beyond \<open>newHeight\<close>.
\<close>

fun patience :: "'p Site \<Rightarrow> nat \<Rightarrow> nat \<Rightarrow> nat \<Rightarrow> 'p \<Rightarrow> bool \<times> 'p" where
  "patience st patienceDelay newHeight 0 p = (False, p)"
| "patience st patienceDelay newHeight (Suc rounds) p =
     (let p' = wait st patienceDelay p
      in if scrollHeight st p' > newHeight then (True, p')
         else patience st patienceDelay newHeight rounds p')"

definition patienceRounds :: nat where
  "patienceRounds = 5"

text \<open>One pass of \<open>while (isUnlimited || imageCount < maxImages)\<close>, the test included.\<close>

definition autoScroll_iteration ::
  "'p Site \<Rightarrow> nat \<Rightarrow> nat \<Rightarrow> (ScrapeProgress \<Rightarrow> 's \<Rightarrow> 's) \<Rightarrow> ('p \<Rightarrow> 's \<Rightarrow> 's) \<Rightarrow>
   ('p, 's) ScrollState \<Rightarrow> ('p, 's) ScrollState loop_step" where
  "autoScroll_iteration st maxI delay onProgress onPageChange s =
     (let isUnlimited = (maxI = 0)
      in if \<not> (isUnlimited \<or> imageCount s < maxI) then Break s
         else
          (let currentPageKey = (page_url st (the_page s), imageCount s)
           in if \<not> justClickedPagination s \<and> currentPageKey \<in> visitedPages s then Break s
              else
               (let n = img_count st (the_page s);
                    s1 = s\<lparr> justClickedPagination := False,
                            visitedPages := insert currentPageKey (visitedPages s),
                            imageCount := n,
                            callback_state :=
                              onProgress
                                \<lparr> p_percentage = (if isUnlimited then 0
                                                   else (of_nat n / of_nat maxI) * 100),
                                  p_current = n,
                                  p_total = (if isUnlimited then n else maxI),
                                  p_status = ''Scrolling and discovering images...'' \<rparr>
                                (callback_state s) \<rparr>
                in case click_if_found st delay n (the_page s) of
                     Paginated p \<Rightarrow>
                       Continue (s1\<lparr> the_page := p, justClickedPagination := True,
                                    callback_state := onPageChange p (callback_state s1) \<rparr>)
                   | NoChange p \<Rightarrow>
                       (let previousHeight = scrollHeight st p;
                            p' = wait st delay (scrollToBottom st p);
                            newHeight = scrollHeight st p'
                        in if newHeight = previousHeight
                           then (case click_if_found st delay n p' of
                                   Paginated q \<Rightarrow>
                                     Continue (s1\<lparr> the_page := q, justClickedPagination := True,
                                       callback_state := onPageChange q (callback_state s1) \<rparr>)
                                 | NoChange q \<Rightarrow>
                                     (case patience st (delay * 2) newHeight patienceRounds q of
                                        (True, q') \<Rightarrow> Continue (s1\<lparr> the_page := q' \<rparr>)
                                      | (False, q') \<Rightarrow> Break (s1\<lparr> the_page := q' \<rparr>)))
                           else Continue (s1\<lparr> the_page := p' \<rparr>)))))"

text \<open>The loop may run forever: \<open>None\<close> is a run that never leaves it.\<close>

partial_function (option) autoScroll_loop ::
  "'p Site \<Rightarrow> nat \<Rightarrow> nat \<Rightarrow> (ScrapeProgress \<Rightarrow> 's \<Rightarrow> 's) \<Rightarrow> ('p \<Rightarrow> 's \<Rightarrow> 's) \<Rightarrow>
   ('p, 's) ScrollState \<Rightarrow> ('p, 's) ScrollState option" where
  "autoScroll_loop st maxI delay onProgress onPageChange s =
     (case autoScroll_iteration st maxI delay onProgress onPageChange s of
        Break s' \<Rightarrow> Some s'
      | Continue s' \<Rightarrow> autoScroll_loop st maxI delay onProgress onPageChange s')"

definition autoScroll_run ::
  "'p Site \<Rightarrow> nat \<Rightarrow> nat \<Rightarrow> (ScrapeProgress \<Rightarrow> 's \<Rightarrow> 's) \<Rightarrow> ('p \<Rightarrow> 's \<Rightarrow> 's) \<Rightarrow>
   'p \<Rightarrow> 's \<Rightarrow> ('p, 's) ScrollState option" where
  "autoScroll_run st maxI delay onProgress onPageChange p cs =
     autoScroll_loop st maxI delay onProgress onPageChange
       \<lparr> the_page = p, imageCount = 0, visitedPages = {}, justClickedPagination = False,
         callback_state = cs \<rparr>"

section \<open>The orchestrator: \<open>scrape\<close>\<close>

text \<open>
  Everything outside the program that a run of \<open>scrape\<close> depends on:
  \<^item> \<open>setup_error\<close>: the error of the page setup (viewport, user agent, headers, stealth
    script, request interception), if one of its calls rejects;
  \<^item> \<open>listing_goto\<close>: the outcome of each navigation attempt to the listing URL;
  \<^item> \<open>site\<close> and \<open>listing\<close>: the listing page once it is loaded and the wait for the first
    embeds is over;
  \<^item> \<open>detail_pages\<close>: the behaviour of the detail page of an item URL;
  \<^item> \<open>cache_at i\<close>: the content of \<open>metadataCache\<close> (filled by the response handler) when
    item \<open>i\<close> is extracted;
  \<^item> \<open>thumbnail_of\<close>: the map that \<open>extractThumbnailsFromSearch\<close> returns;
  \<^item> \<open>completion_time\<close>: the clock at completion;
  \<^item> \<open>onComplete_error\<close>: the error thrown by \<open>callbacks.onComplete\<close>, if there is such a
    callback and it throws.
  Browser calls that the source does not guard are taken to succeed.
\<close>

record 'p World =
  setup_error :: "string option"
  listing_goto :: "nat \<Rightarrow> string option"
  site :: "'p Site"
  listing :: 'p
  detail_pages :: "string \<Rightarrow> DetailPage"
  cache_at :: "nat \<Rightarrow> (string \<rightharpoonup> CachedData)"
  thumbnail_of :: "string \<rightharpoonup> string"
  completion_time :: string
  onComplete_error :: "string option"

text \<open>
  What the two callbacks passed to \<open>autoScroll\<close> work on: the updates written to the job so
  far (each one call \<open>storage.updateScrapeJob(jobId, \<dots>)\<close>) and \<open>discoveredLinks\<close>.
\<close>

record Collected =
  writes :: "JobUpdate list"
  discoveredLinks :: "(string \<times> ImageLink) list"

definition progress_callback :: "ScrapeProgress \<Rightarrow> Collected \<Rightarrow> Collected" where
  "progress_callback pr cs =
     cs\<lparr> writes := writes cs @
            [no_update\<lparr> u_progress := Some (Math_round (p_percentage pr)),
                        u_scrapedImages := Some (p_current pr),
                        u_totalImages := Some (p_total pr) \<rparr>] \<rparr>"

definition page_change_callback :: "'p Site \<Rightarrow> 'p \<Rightarrow> Collected \<Rightarrow> Collected" where
  "page_change_callback st p cs =
     cs\<lparr> discoveredLinks :=
            add_links (collectPageImageLinks (document st p)) (discoveredLinks cs) \<rparr>"

text \<open>
  The discovery phase: the sweep of the initial page, \<open>autoScroll\<close> when the configuration
  asks for it (\<open>config.scrollDelay || 1000\<close>), the 3000 ms pause and the final sweep.
\<close>

definition discover :: "'p World \<Rightarrow> ScrapeConfig \<Rightarrow> Collected option" where
  "discover w cfg =
     (let cs0 = \<lparr> writes = [],
                  discoveredLinks =
                    add_links (collectPageImageLinks (document (site w) (listing w))) [] \<rparr>
      in case (if autoScroll cfg
               then map_option (\<lambda>s. (the_page s, callback_state s))
                      (autoScroll_run (site w) (maxImages cfg)
                         (if scrollDelay cfg = 0 then 1000 else scrollDelay cfg)
                         progress_callback (page_change_callback (site w)) (listing w) cs0)
               else Some (listing w, cs0)) of
           None \<Rightarrow> None
         | Some (p, cs) \<Rightarrow>
             Some (cs\<lparr> discoveredLinks :=
                          add_links
                            (collectPageImageLinks (document (site w) (wait (site w) 3000 p)))
                            (discoveredLinks cs) \<rparr>))"

text \<open>
  The extraction loop \<open>for (let i = 0; i < limitedLinks.length; i++)\<close>: \<open>len\<close> is
  \<open>limitedLinks.length\<close>, \<open>imgs\<close> the array \<open>images\<close>. An exception of one item is caught
  and the loop goes on.
\<close>

fun extract_items ::
  "'p World \<Rightarrow> bool \<Rightarrow> nat \<Rightarrow> nat \<Rightarrow> ImageLink list \<Rightarrow> ScrapedImage list \<Rightarrow> JobUpdate list \<Rightarrow>
   ScrapedImage list \<times> JobUpdate list" where
  "extract_items w details len i [] imgs ws = (imgs, ws)"
| "extract_items w details len i (linkData # rest) imgs ws =
     (case extractImageData (cache_at w i) (detail_pages w (link_url linkData))
             (link_url linkData) (link_imageId linkData) (link_hash linkData) details
             (thumbnail_of w (link_imageId linkData)) of
        Returns img \<Rightarrow>
          extract_items w details len (i + 1) rest (imgs @ [img])
            (ws @ [no_update\<lparr> u_progress :=
                                 Some (Math_round ((of_nat (i + 1) / of_nat len) * 100)),
                               u_scrapedImages := Some (length (imgs @ [img])),
                               u_totalImages := Some len,
                               u_images := Some (imgs @ [img]) \<rparr>])
      | Throws err \<Rightarrow> extract_items w details len (i + 1) rest imgs ws)"

definition error_update :: "string \<Rightarrow> JobUpdate" where
  "error_update message = no_update\<lparr> u_status := Some error, u_error := Some (Some message) \<rparr>"

definition completed_update :: "string \<Rightarrow> JobUpdate" where
  "completed_update time =
     no_update\<lparr> u_status := Some completed, u_progress := Some 100,
                u_completedAt := Some (Some time) \<rparr>"

text \<open>
  \<open>scrape\<close>: what the promise settles with, and the updates written to the job in order.
  \<open>None\<close> is a run whose discovery loop never ends.
\<close>

definition scrape ::
  "'p World \<Rightarrow> string \<Rightarrow> ScrapeConfig \<Rightarrow> (ScrapedImage list outcome \<times> JobUpdate list) option" where
  "scrape w target cfg =
     (let started = [no_update\<lparr> u_status := Some scraping \<rparr>]
      in case setup_error w of
           Some e \<Rightarrow> Some (Throws e, started @ [error_update e])
         | None \<Rightarrow>
            (case fst (listing_navigation (listing_goto w) target 0 False []) of
               Throws e \<Rightarrow> Some (Throws e, started @ [error_update e])
             | Returns ok \<Rightarrow>
                (case discover w cfg of
                   None \<Rightarrow> None
                 | Some cs \<Rightarrow>
                    (let imageLinks = map_values (discoveredLinks cs);
                         limitedLinks = (if maxImages cfg = 0 then imageLinks
                                         else take (maxImages cfg) imageLinks);
                         extracted = extract_items w (extractDetails cfg) (length limitedLinks) 0
                                       limitedLinks [] (started @ writes cs);
                         finished = snd extracted @ [completed_update (completion_time w)]
                     in case onComplete_error w of
                          None \<Rightarrow> Some (Returns (fst extracted), finished)
                        | Some e \<Rightarrow> Some (Throws e, finished @ [error_update e])))))"

section \<open>Notions used to state the properties\<close>

text \<open>
  \<open>discoveredLinks\<close> is well keyed: no key occurs twice and every entry is stored under
  its own \<open>imageId\<close>.
\<close>

definition keyed :: "(string \<times> ImageLink) list \<Rightarrow> bool" where
  "keyed m = (distinct (map fst m) \<and> (\<forall>(k, v) \<in> set m. link_imageId v = k))"

text \<open>
  Two page states look the same to \<open>autoScroll\<close>: same URL, same number of images, same
  document height. A site is static when no click, scroll or wait changes that view.
\<close>

definition same_view :: "'p Site \<Rightarrow> 'p \<Rightarrow> 'p \<Rightarrow> bool" where
  "same_view st a b =
     (page_url st a = page_url st b \<and> img_count st a = img_count st b \<and>
      scrollHeight st a = scrollHeight st b)"

definition static_site :: "'p Site \<Rightarrow> bool" where
  "static_site st =
     (\<forall>q. (\<forall>q'. click st q = Some q' \<longrightarrow> same_view st q' q) \<and>
          same_view st (scrollToBottom st q) q \<and>
          (\<forall>ms. same_view st (wait st ms q) q))"



text \<open>The progress report of the first pass of \<open>autoScroll\<close> on the page \<open>p\<close>.\<close>

definition first_report :: "'p Site \<Rightarrow> nat \<Rightarrow> 'p \<Rightarrow> ScrapeProgress" where
  "first_report st maxI p =
     \<lparr> p_percentage = (if maxI = 0 then 0 else (of_nat (img_count st p) / of_nat maxI) * 100),
       p_current = img_count st p,
       p_total = (if maxI = 0 then img_count st p else maxI),
       p_status = ''Scrolling and discovering images...'' \<rparr>"

text \<open>
  The status of the stored job before the first and after each of a sequence of
  \<open>updateScrapeJob\<close> calls (\<open>None\<close> while the store has no such job).
\<close>

fun job_history :: "(string \<rightharpoonup> ScrapeJob) \<Rightarrow> string \<Rightarrow> JobUpdate list \<Rightarrow> Status option list" where
  "job_history scrapeJobs jid [] = [map_option status (scrapeJobs jid)]"
| "job_history scrapeJobs jid (u # us) =
     map_option status (scrapeJobs jid) #
     job_history (fst (updateScrapeJob scrapeJobs jid u)) jid us"

text \<open>
  The first update of \<open>scrape\<close>; the progress value written after item \<open>k\<close> of \<open>len\<close>; an
  update that touches neither the status, nor the completion time, nor the error.
\<close>

definition started_update :: JobUpdate where
  "started_update = no_update\<lparr> u_status := Some scraping \<rparr>"

definition item_progress :: "nat \<Rightarrow> nat \<Rightarrow> int" where
  "item_progress len k = Math_round ((of_nat k / of_nat len) * 100)"

definition plain :: "JobUpdate \<Rightarrow> bool" where
  "plain x = (u_status x = None \<and> u_completedAt x = None \<and> u_error x = None)"

section \<open>Example data of the specification\<close>











text \<open>
  A listing that never changes: three images, no pagination control, and a document in
  which the three lookups find the items \<open>a1\<close> and \<open>a2\<close> (\<open>a1\<close> by two embeds and an anchor,
  \<open>a2\<close> by an embed and a container). Its detail pages answer 404 to every attempt.
\<close>

definition two_items :: Document where
  "two_items =
     \<lparr> embeds = [\<lparr> image_id = Some ''a1'', customer_id = Some ''c7'' \<rparr>,
                 \<lparr> image_id = Some ''a2'', customer_id = Some ''c7'' \<rparr>,
                 \<lparr> image_id = Some ''a1'', customer_id = Some ''c7'' \<rparr>],
       anchors = [''https://smartframe.com/search/image/c7/a1?ref=list''],
       containers = [\<lparr> data_image_id = Some ''a2'', data_customer_id = None,
                       data_hash = Some ''c7'' \<rparr>] \<rparr>"

definition link_a1 :: ImageLink where
  "link_a1 = \<lparr> link_url = ''https://smartframe.com/search/image/c7/a1'', link_imageId = ''a1'',
               link_hash = ''c7'' \<rparr>"

definition link_a2 :: ImageLink where
  "link_a2 = \<lparr> link_url = ''https://smartframe.com/search/image/c7/a2'', link_imageId = ''a2'',
               link_hash = ''c7'' \<rparr>"

definition still_site :: "unit Site" where
  "still_site =
     \<lparr> page_url = (\<lambda>p. ''https://smartframe.com/search''),
       img_count = (\<lambda>p. 3),
       scrollHeight = (\<lambda>p. 1000),
       document = (\<lambda>p. two_items),
       find_button = (\<lambda>p. False),
       click = (\<lambda>p. None),
       scrollToBottom = (\<lambda>p. p),
       wait = (\<lambda>ms p. p) \<rparr>"

definition not_found_page :: DetailPage where
  "not_found_page = \<lparr> setViewport_error = None, goto_error = (\<lambda>n. Some ''404''),
                       evaluate_result = Throws ''no page'' \<rparr>"

definition still_world :: "unit World" where
  "still_world =
     \<lparr> setup_error = None, listing_goto = (\<lambda>n. None), site = still_site, listing = (),
       detail_pages = (\<lambda>u. not_found_page), cache_at = (\<lambda>i. Map.empty),
       thumbnail_of = Map.empty, completion_time = ''2024-01-01T00:00:00.000Z'',
       onComplete_error = None \<rparr>"

definition cap4 :: ScrapeConfig where
  "cap4 = \<lparr> cfg_url = ''https://smartframe.com/search'', maxImages = 4, extractDetails = True,
            sortBy = ''relevance'', autoScroll = True, scrollDelay = 1000 \<rparr>"

text \<open>The progress update of the discovery phase on that listing, and a finished job.\<close>

definition seventy_five :: JobUpdate where
  "seventy_five = no_update\<lparr> u_progress := Some 75, u_scrapedImages := Some 3,
                              u_totalImages := Some 4 \<rparr>"

definition finished_job :: ScrapeJob where
  "finished_job =
     \<lparr> job_id = ''job-1'', job_url = ''https://smartframe.com/search'', status = completed,
       progress = 100, totalImages = 2, scrapedImages = 2, images = [], job_error = None,
       startedAt = ''2024-01-01T00:00:00.000Z'', completedAt = Some ''2024-01-01T00:05:00.000Z'',
       config = cap4 \<rparr>"

section \<open>Properties\<close>

subsection \<open>The sanitizer\<close>


lemma strip_tags_no_open: "CHR ''<'' \<notin> set s \<Longrightarrow> strip_tags s = s"
  by (induction s) auto

lemma remove_angle_set: "set (remove_angle s) = set s - {CHR ''<'', CHR ''>''}"
  by (auto simp: remove_angle_def)

lemma remove_angle_id: "CHR ''<'' \<notin> set s \<Longrightarrow> CHR ''>'' \<notin> set s \<Longrightarrow> remove_angle s = s"
  by (auto simp: remove_angle_def filter_id_conv) 

lemma strip_open_start_id: "CHR ''<'' \<notin> set s \<Longrightarrow> strip_open_start s = s"
  by (cases s) (auto simp: strip_open_start_def)

lemma strip_close_end_id: "CHR ''>'' \<notin> set s \<Longrightarrow> strip_close_end s = s"
proof (cases "s \<noteq> [] \<and> last s = CHR ''>''")
  case True
  then have "CHR ''>'' \<in> set s" using last_in_set [of s] by simp
  moreover assume "CHR ''>'' \<notin> set s"
  ultimately show ?thesis by simp
next
  case False
  then show ?thesis by (auto simp: strip_close_end_def)
qed

lemma set_trim: "set (trim s) \<subseteq> set s"
  by (auto simp: trim_def dest!: set_dropWhileD)

lemma trim_fix_aux:
  assumes "dropWhile P t = t"
  shows "dropWhile P (rev (dropWhile P (rev t))) = rev (dropWhile P (rev t))"
proof (cases t)
  case Nil
  then show ?thesis by simp
next
  case (Cons x xs)
  with assms hd_dropWhile [of P t] have nx: "\<not> P x" by auto
  have "dropWhile P (rev t) = dropWhile P (rev xs) @ [x]"
    using nx Cons by (simp add: dropWhile_append3)
  then show ?thesis using nx by simp
qed

lemma trim_trim: "trim (trim s) = trim s"
proof -
  let ?t = "dropWhile is_space s"
  have "dropWhile is_space ?t = ?t" by simp
  then have "dropWhile is_space (trim s) = trim s"
    unfolding trim_def by (rule trim_fix_aux)
  then show ?thesis by (simp add: trim_def)
qed









lemma clean_steps_no_angle:
  "CHR ''<'' \<notin> set (clean_steps s)" "CHR ''>'' \<notin> set (clean_steps s)"
  using set_trim [of "remove_angle (strip_close_end (strip_open_start (strip_tags s)))"]
  by (auto simp: clean_steps_def remove_angle_set)

lemma trim_clean_steps: "trim (clean_steps s) = clean_steps s"
  by (simp add: clean_steps_def trim_trim)

lemma clean_steps_fix:
  assumes "CHR ''<'' \<notin> set v" "CHR ''>'' \<notin> set v" "trim v = v"
  shows "clean_steps v = v"
  using assms
  by (simp add: clean_steps_def strip_tags_no_open strip_open_start_id strip_close_end_id
      remove_angle_id)

lemma cleanTextHelper_SomeD:
  assumes "cleanTextHelper (Some s) = Some v"
  shows "v = clean_steps s" "v \<noteq> []" "length v \<le> 200" "length (split_on nl v) \<le> 3"
    "\<not> suspicious (toLowerCase s)" "\<not> ui_text (toLowerCase s)"
  using assms by (auto simp: cleanTextHelper_def Let_def split: if_splits)

lemma cleanTextHelper_SomeI:
  assumes "\<not> suspicious (toLowerCase s)" "\<not> ui_text (toLowerCase s)"
    "clean_steps s \<noteq> []" "length (clean_steps s) \<le> 200"
    "length (split_on nl (clean_steps s)) \<le> 3"
  shows "cleanTextHelper (Some s) = Some (clean_steps s)"
proof -
  from assms(3) have "s \<noteq> []"
    by (auto simp: clean_steps_def trim_def remove_angle_def strip_close_end_def strip_open_start_def)
  with assms show ?thesis by (simp add: cleanTextHelper_def Let_def)
qed







subsection \<open>The extraction pipeline\<close>

lemma all_Field:
  "(\<forall>f. P f) \<longleftrightarrow> P Photographer \<and> P ImageSize \<and> P FileSize \<and> P Country \<and> P City \<and> P Date \<and> P MatchEvent"
proof
  assume r: "P Photographer \<and> P ImageSize \<and> P FileSize \<and> P Country \<and> P City \<and> P Date \<and> P MatchEvent"
  show "\<forall>f. P f"
  proof
    fix f show "P f" using r by (cases f) simp_all
  qed
qed simp

lemma cleanTextHelper_not_empty: "cleanTextHelper x \<noteq> Some []"
  by (auto simp: cleanTextHelper_def Let_def split: option.splits if_splits)

lemma truthy_cleanTextHelper: "truthy (cleanTextHelper x) \<longleftrightarrow> cleanTextHelper x \<noteq> None"
  using cleanTextHelper_not_empty [of x] by (auto simp: truthy_def split: option.splits)


lemma js_or_None [simp]: "js_or None b = b"
  by (simp add: js_or_def truthy_def)

lemma js_or_Some: "a \<noteq> None \<Longrightarrow> a \<noteq> Some [] \<Longrightarrow> js_or a b = a"
  by (auto simp: js_or_def truthy_def split: option.splits)


lemma js_or_keep: "a \<noteq> None \<Longrightarrow> a \<noteq> Some [] \<Longrightarrow> js_or a b = a"
  by (rule js_or_Some)


















lemma merge_metadata_ids:
  "imageId (merge_metadata m img) = imageId img" "url (merge_metadata m img) = url img"
  by (simp_all add: merge_metadata_def)

lemma cached_image_ids:
  "imageId (cached_image cache u i h t) = i" "url (cached_image cache u i h t) = u"
  by (simp_all add: cached_image_def initial_image_def map_cached_def split: option.splits)

lemma extractImageData_cases:
  "extractImageData cache page u i h d t =
     Returns (case parsed_raw page u d of
                None \<Rightarrow> cached_image cache u i h t
              | Some rawData \<Rightarrow> merge_metadata (parseMetadata rawData) (cached_image cache u i h t))"
  by (auto simp: extractImageData_def extract_details_def parsed_raw_def Let_def
      split: option.splits outcome.splits)

subsection \<open>Navigation and \<open>extractImageData\<close>\<close>

lemma navigation_listing:
  "listing_navigation goto u 0 False [] =
     (case goto 1 of
        None \<Rightarrow> (Returns (), [Goto u networkidle2 60000])
      | Some e1 \<Rightarrow>
         (case goto 2 of
            None \<Rightarrow> (Returns (), [Goto u networkidle2 60000, Delay (2000 * 1),
                                  Goto u networkidle2 60000])
          | Some e2 \<Rightarrow>
             (case goto 3 of
                None \<Rightarrow> (Returns (), [Goto u networkidle2 60000, Delay (2000 * 1),
                                      Goto u networkidle2 60000, Delay (2000 * 2),
                                      Goto u networkidle2 60000])
              | Some e3 \<Rightarrow> (Throws e3, [Goto u networkidle2 60000, Delay (2000 * 1),
                                        Goto u networkidle2 60000, Delay (2000 * 2),
                                        Goto u networkidle2 60000]))))"
  by (cases "goto 1"; cases "goto 2"; cases "goto 3")
    (simp_all add: listing_navigation.simps maxAttempts_def numeral_2_eq_2 numeral_3_eq_3)

lemma navigation_detail:
  "detail_navigation goto u 1 [] =
     (case goto 1 of
        None \<Rightarrow> (True, [Goto u domcontentloaded 60000])
      | Some e1 \<Rightarrow>
         (case goto 2 of
            None \<Rightarrow> (True, [Goto u domcontentloaded 60000, Delay 2000,
                             Goto u domcontentloaded 60000])
          | Some e2 \<Rightarrow> (False, [Goto u domcontentloaded 60000, Delay 2000,
                                Goto u domcontentloaded 60000])))"
  by (cases "goto 1"; cases "goto 2") (simp_all add: detail_navigation.simps numeral_2_eq_2)

lemma parsed_raw_nav_failed:
  "goto_error page 1 \<noteq> None \<Longrightarrow> goto_error page 2 \<noteq> None \<Longrightarrow> parsed_raw page u d = None"
  by (auto simp: parsed_raw_def navigation_detail [unfolded One_nat_def])




























subsection \<open>Discovery, the job store and \<open>scrape\<close>\<close>

lemma map_set_keys:
  "map fst (map_set k v m) = (if k \<in> fst ` set m then map fst m else map fst m @ [k])"
  by (induction m) (auto simp: image_iff, force)

lemma map_set_distinct: "distinct (map fst m) \<Longrightarrow> distinct (map fst (map_set k v m))"
  by (simp add: map_set_keys)

lemma map_set_values: "set (map_set k v m) \<subseteq> insert (k, v) (set m)"
  by (induction m) (auto split: if_splits)

lemma keyed_map_set: "keyed m \<Longrightarrow> keyed (map_set (link_imageId l) l m)"
  unfolding keyed_def using map_set_values [of "link_imageId l" l m]
  by (auto simp: map_set_distinct)

lemma keyed_add_links: "keyed m \<Longrightarrow> keyed (add_links links m)"
  unfolding add_links_def
  by (induction links arbitrary: m) (simp_all add: keyed_map_set)

lemma keyed_Nil: "keyed []"
  by (simp add: keyed_def)

lemma keyed_values: "keyed m \<Longrightarrow> map link_imageId (map_values m) = map fst m"
  by (auto simp: keyed_def map_values_def)

lemma keyed_distinct: "keyed m \<Longrightarrow> distinct (map link_imageId (map_values m))"
  using keyed_values [of m] by (simp add: keyed_def)

lemma keyed_sweeps: "keyed m \<Longrightarrow> keyed (fold add_links sweeps m)"
  by (induction sweeps arbitrary: m) (simp_all add: keyed_add_links)

text \<open>An invariant of the callback state survives the loop when both callbacks keep it.\<close>

lemma iteration_invariant:
  assumes "\<And>pr cs. I cs \<Longrightarrow> I (onProgress pr cs)" "\<And>p cs. I cs \<Longrightarrow> I (onPageChange p cs)"
    and "I (callback_state s)"
  shows "case autoScroll_iteration st maxI delay onProgress onPageChange s of
           Continue s' \<Rightarrow> I (callback_state s') | Break s' \<Rightarrow> I (callback_state s')"
  using assms
  by (auto simp: autoScroll_iteration_def Let_def
      split: click_result.splits prod.splits bool.splits)

lemma loop_invariant:
  assumes run: "autoScroll_loop st maxI delay onProgress onPageChange s = Some s'"
    and op: "\<And>pr cs. I cs \<Longrightarrow> I (onProgress pr cs)"
    and oc: "\<And>p cs. I cs \<Longrightarrow> I (onPageChange p cs)"
    and init: "I (callback_state s)"
  shows "I (callback_state s')"
proof -
  define P where "P = (\<lambda>(st' :: 'a Site) (m :: nat) (d :: nat)
      (f :: ScrapeProgress \<Rightarrow> 'b \<Rightarrow> 'b) (g :: 'a \<Rightarrow> 'b \<Rightarrow> 'b)
      (s0 :: ('a, 'b) ScrollState) (y :: ('a, 'b) ScrollState).
      (\<forall>pr cs. I cs \<longrightarrow> I (f pr cs)) \<longrightarrow> (\<forall>p cs. I cs \<longrightarrow> I (g p cs)) \<longrightarrow>
      I (callback_state s0) \<longrightarrow> I (callback_state y))"
  have "P st maxI delay onProgress onPageChange s s'"
  proof (rule autoScroll_loop.raw_induct [where P = P, OF _ run])
    fix loop :: "'a Site \<Rightarrow> nat \<Rightarrow> nat \<Rightarrow> (ScrapeProgress \<Rightarrow> 'b \<Rightarrow> 'b) \<Rightarrow> ('a \<Rightarrow> 'b \<Rightarrow> 'b) \<Rightarrow>
        ('a, 'b) ScrollState \<Rightarrow> ('a, 'b) ScrollState option"
      and st0 m d f g s0 y
    assume IH: "\<And>st0 m d f g s0 y. loop st0 m d f g s0 = Some y \<Longrightarrow> P st0 m d f g s0 y"
      and step: "(case autoScroll_iteration st0 m d f g s0 of
                    Continue s1 \<Rightarrow> loop st0 m d f g s1 | Break s1 \<Rightarrow> Some s1) = Some y"
    show "P st0 m d f g s0 y"
      unfolding P_def
    proof (intro impI)
      assume a: "\<forall>pr cs. I cs \<longrightarrow> I (f pr cs)"
        and b: "\<forall>p cs. I cs \<longrightarrow> I (g p cs)" and c: "I (callback_state s0)"
      have inv: "case autoScroll_iteration st0 m d f g s0 of
           Continue s1 \<Rightarrow> I (callback_state s1) | Break s1 \<Rightarrow> I (callback_state s1)"
        using a b c by (intro iteration_invariant) auto
      show "I (callback_state y)"
      proof (cases "autoScroll_iteration st0 m d f g s0")
        case (Continue s1)
        with inv have i1: "I (callback_state s1)" by simp
        from Continue step have "loop st0 m d f g s1 = Some y" by simp
        from IH [OF this] a b i1 show ?thesis by (simp add: P_def)
      next
        case (Break s1)
        with inv step show ?thesis by simp
      qed
    qed
  qed
  with op oc init show ?thesis by (simp add: P_def)
qed

lemma same_view_refl: "same_view st a a"
  by (simp add: same_view_def)

lemma same_view_trans: "same_view st a b \<Longrightarrow> same_view st b c \<Longrightarrow> same_view st a c"
  by (simp add: same_view_def)

lemma static_click:
  assumes "static_site st" "same_view st p p0"
  shows "\<exists>q. click_if_found st delay (img_count st p0) p = NoChange q \<and> same_view st q p0"
proof (cases "find_button st p \<and> click st p \<noteq> None")
  case False
  with assms(2) show ?thesis
    by (auto simp: click_if_found_def try_click_def)
next
  case True
  then obtain p1 where c: "click st p = Some p1" and f: "find_button st p" by auto
  from assms(1) c have "same_view st p1 p" by (simp add: static_site_def)
  moreover from assms(1) have "same_view st (wait st (delay + 2000) p1) p1"
    by (simp add: static_site_def)
  ultimately have v: "same_view st (wait st (delay + 2000) p1) p"
    by (blast intro: same_view_trans)
  with assms(2) have v0: "same_view st (wait st (delay + 2000) p1) p0"
    by (blast intro: same_view_trans)
  from v v0 c f show ?thesis
    by (simp add: click_if_found_def try_click_def Let_def same_view_def)
qed

lemma static_patience:
  assumes "static_site st" "same_view st q p0"
  shows "\<exists>q'. patience st d (scrollHeight st p0) n q = (False, q') \<and> same_view st q' p0"
  using assms(2)
proof (induction n arbitrary: q)
  case 0
  then show ?case by simp
next
  case (Suc n)
  from assms(1) have "same_view st (wait st d q) q" by (simp add: static_site_def)
  with Suc.prems have w: "same_view st (wait st d q) p0" by (blast intro: same_view_trans)
  from Suc.IH [OF w] w show ?case by (simp add: Let_def same_view_def)
qed

lemma static_iteration:
  assumes st: "static_site st"
    and cond: "maxI = 0 \<or> imageCount s < maxI"
    and guard: "justClickedPagination s \<or> (page_url st (the_page s), imageCount s) \<notin> visitedPages s"
  shows "\<exists>s'. autoScroll_iteration st maxI delay onProgress onPageChange s = Break s' \<and>
              callback_state s' = onProgress (first_report st maxI (the_page s)) (callback_state s) \<and>
              same_view st (the_page s') (the_page s)"
proof -
  let ?p = "the_page s"
  from static_click [OF st same_view_refl [of st ?p], of delay]
  obtain p1 where c1: "click_if_found st delay (img_count st ?p) ?p = NoChange p1"
    and v1: "same_view st p1 ?p" by blast
  let ?p2 = "wait st delay (scrollToBottom st p1)"
  from st have "same_view st ?p2 (scrollToBottom st p1)" "same_view st (scrollToBottom st p1) p1"
    by (simp_all add: static_site_def)
  with v1 have v2: "same_view st ?p2 ?p" by (blast intro: same_view_trans)
  from static_click [OF st v2, of delay]
  obtain p3 where c3: "click_if_found st delay (img_count st ?p) ?p2 = NoChange p3"
    and v3: "same_view st p3 ?p" by blast
  from static_patience [OF st v3, of "delay * 2" patienceRounds]
  obtain p4 where c4: "patience st (delay * 2) (scrollHeight st ?p) patienceRounds p3 = (False, p4)"
    and v4: "same_view st p4 ?p" by blast
  have h: "scrollHeight st ?p2 = scrollHeight st p1" "scrollHeight st ?p2 = scrollHeight st ?p"
    using v1 v2 by (simp_all add: same_view_def)
  show ?thesis
    using cond guard c1 c3 c4 v4 h
    by (auto simp: autoScroll_iteration_def Let_def first_report_def)
qed

lemma static_run:
  assumes "static_site st"
  shows "\<exists>s'. autoScroll_run st maxI delay onProgress onPageChange p cs = Some s' \<and>
              callback_state s' = onProgress (first_report st maxI p) cs \<and>
              same_view st (the_page s') p"
proof -
  let ?s = "\<lparr> the_page = p, imageCount = 0, visitedPages = {}, justClickedPagination = False,
         callback_state = cs \<rparr>"
  have "maxI = 0 \<or> imageCount ?s < maxI" by auto
  moreover have "justClickedPagination ?s \<or>
      (page_url st (the_page ?s), imageCount ?s) \<notin> visitedPages ?s" by simp
  ultimately obtain s' where
    "autoScroll_iteration st maxI delay onProgress onPageChange ?s = Break s'"
    "callback_state s' = onProgress (first_report st maxI (the_page ?s)) (callback_state ?s)"
    "same_view st (the_page s') (the_page ?s)"
    using static_iteration [OF assms, of maxI ?s delay onProgress onPageChange] by blast
  then show ?thesis
    by (subst autoScroll_run_def, subst autoScroll_loop.simps) simp
qed





lemma collect_two_items:
  "map link_imageId (collectPageImageLinks two_items) = [''a1'', ''a2'', ''a1'']"
  by (simp add: collectPageImageLinks_def two_items_def embed_step_def anchor_step_def
      container_step_def truthy_def js_or_def match_image_path_at_def Let_def)

lemma static_still_site: "static_site still_site"
  by (simp add: static_site_def same_view_def still_site_def)


lemma Math_round_eq:
  "of_int z \<le> x + 1 / 2 \<Longrightarrow> x + 1 / 2 < of_int z + 1 \<Longrightarrow> Math_round x = z"
  unfolding Math_round_def by (rule floor_unique)


lemma Math_round_percent_full: "0 < n \<Longrightarrow> Math_round ((of_nat n / of_nat n) * 100) = 100"
  by (rule Math_round_eq) simp_all

lemma Math_round_75: "Math_round ((of_nat 3 / of_nat 4) * 100) = 75"
  by (rule Math_round_eq) simp_all

lemma Math_round_50: "Math_round ((of_nat 1 / of_nat 2) * 100) = 50"
  by (rule Math_round_eq) simp_all

lemma extract_items_writes:
  "\<exists>ex. snd (extract_items w details len i links imgs ws) = ws @ ex \<and>
        length (fst (extract_items w details len i links imgs ws)) = length imgs + length links \<and>
        map u_progress ex = map (\<lambda>k. Some (item_progress len k)) [Suc i ..< Suc i + length links] \<and>
        (\<forall>x \<in> set ex. plain x)"
proof (induction links arbitrary: i imgs ws)
  case Nil
  show ?case by simp
next
  case (Cons linkData rest)
  let ?img = "case parsed_raw (detail_pages w (link_url linkData)) (link_url linkData) details of
                None \<Rightarrow> cached_image (cache_at w i) (link_url linkData) (link_imageId linkData)
                          (link_hash linkData) (thumbnail_of w (link_imageId linkData))
              | Some rawData \<Rightarrow> merge_metadata (parseMetadata rawData)
                  (cached_image (cache_at w i) (link_url linkData) (link_imageId linkData)
                     (link_hash linkData) (thumbnail_of w (link_imageId linkData)))"
  let ?u = "no_update\<lparr> u_progress := Some (Math_round ((of_nat (i + 1) / of_nat len) * 100)),
                        u_scrapedImages := Some (length (imgs @ [?img])),
                        u_totalImages := Some len,
                        u_images := Some (imgs @ [?img]) \<rparr>"
  have step: "extract_items w details len i (linkData # rest) imgs ws =
              extract_items w details len (Suc i) rest (imgs @ [?img]) (ws @ [?u])"
    by (simp add: extractImageData_cases)
  from Cons.IH [of "Suc i" "imgs @ [?img]" "ws @ [?u]"]
  obtain ex where e: "snd (extract_items w details len (Suc i) rest (imgs @ [?img]) (ws @ [?u])) =
        (ws @ [?u]) @ ex"
    and l: "length (fst (extract_items w details len (Suc i) rest (imgs @ [?img]) (ws @ [?u]))) =
        length (imgs @ [?img]) + length rest"
    and p: "map u_progress ex =
        map (\<lambda>k. Some (item_progress len k)) [Suc (Suc i) ..< Suc (Suc i) + length rest]"
    and q: "\<forall>x \<in> set ex. plain x"
    by blast
  have u: "plain ?u" "u_progress ?u = Some (item_progress len (Suc i))"
    by (simp_all add: plain_def no_update_def item_progress_def)
  have r: "[Suc i ..< Suc i + length (linkData # rest)] =
           Suc i # [Suc (Suc i) ..< Suc (Suc i) + length rest]"
    by (simp add: upt_rec)
  show ?case
  proof (intro exI [of _ "?u # ex"] conjI)
    show "snd (extract_items w details len i (linkData # rest) imgs ws) = ws @ ?u # ex"
      unfolding step using e by simp
    show "length (fst (extract_items w details len i (linkData # rest) imgs ws)) =
          length imgs + length (linkData # rest)"
      unfolding step using l by simp
    show "map u_progress (?u # ex) =
          map (\<lambda>k. Some (item_progress len k)) [Suc i ..< Suc i + length (linkData # rest)]"
      unfolding r using p u(2) by simp
    show "\<forall>x \<in> set (?u # ex). plain x" using q u(1) by simp
  qed
qed

lemma discover_cases:
  assumes "discover w cfg = Some cs"
  shows "\<exists>p c0. cs = c0\<lparr> discoveredLinks :=
                          add_links (collectPageImageLinks (document (site w) (wait (site w) 3000 p)))
                            (discoveredLinks c0) \<rparr> \<and>
           ((\<not> autoScroll cfg \<and> c0 = \<lparr> writes = [], discoveredLinks =
                    add_links (collectPageImageLinks (document (site w) (listing w))) [] \<rparr>) \<or>
            (\<exists>s. autoScroll cfg \<and> c0 = callback_state s \<and>
               autoScroll_run (site w) (maxImages cfg)
                 (if scrollDelay cfg = 0 then 1000 else scrollDelay cfg)
                 progress_callback (page_change_callback (site w)) (listing w)
                 \<lparr> writes = [], discoveredLinks =
                    add_links (collectPageImageLinks (document (site w) (listing w))) [] \<rparr> = Some s))"
  using assms
  by (auto simp: discover_def Let_def split: if_splits option.splits)

lemma discover_invariant:
  assumes d: "discover w cfg = Some cs"
    and i0: "\<And>l. I \<lparr> writes = [], discoveredLinks = add_links l [] \<rparr>"
    and ip: "\<And>pr c. I c \<Longrightarrow> I (progress_callback pr c)"
    and il: "\<And>l c. I c \<Longrightarrow> I (c\<lparr> discoveredLinks := add_links l (discoveredLinks c) \<rparr>)"
  shows "I cs"
proof -
  from discover_cases [OF d] obtain p c0 where
    cs: "cs = c0\<lparr> discoveredLinks :=
                    add_links (collectPageImageLinks (document (site w) (wait (site w) 3000 p)))
                      (discoveredLinks c0) \<rparr>"
    and c0: "(\<not> autoScroll cfg \<and> c0 = \<lparr> writes = [], discoveredLinks =
                    add_links (collectPageImageLinks (document (site w) (listing w))) [] \<rparr>) \<or>
            (\<exists>s. autoScroll cfg \<and> c0 = callback_state s \<and>
               autoScroll_run (site w) (maxImages cfg)
                 (if scrollDelay cfg = 0 then 1000 else scrollDelay cfg)
                 progress_callback (page_change_callback (site w)) (listing w)
                 \<lparr> writes = [], discoveredLinks =
                    add_links (collectPageImageLinks (document (site w) (listing w))) [] \<rparr> = Some s)"
    by blast
  have "I c0"
    using c0
  proof
    assume "\<not> autoScroll cfg \<and> c0 = \<lparr> writes = [], discoveredLinks =
                    add_links (collectPageImageLinks (document (site w) (listing w))) [] \<rparr>"
    then show ?thesis using i0 by simp
  next
    assume "\<exists>s. autoScroll cfg \<and> c0 = callback_state s \<and>
               autoScroll_run (site w) (maxImages cfg)
                 (if scrollDelay cfg = 0 then 1000 else scrollDelay cfg)
                 progress_callback (page_change_callback (site w)) (listing w)
                 \<lparr> writes = [], discoveredLinks =
                    add_links (collectPageImageLinks (document (site w) (listing w))) [] \<rparr> = Some s"
    then obtain s where s: "c0 = callback_state s"
      and run: "autoScroll_loop (site w) (maxImages cfg)
                 (if scrollDelay cfg = 0 then 1000 else scrollDelay cfg)
                 progress_callback (page_change_callback (site w))
                 \<lparr> the_page = listing w, imageCount = 0, visitedPages = {},
                   justClickedPagination = False,
                   callback_state = \<lparr> writes = [], discoveredLinks =
                    add_links (collectPageImageLinks (document (site w) (listing w))) [] \<rparr> \<rparr> = Some s"
      by (auto simp: autoScroll_run_def)
    have "I (callback_state s)"
    proof (rule loop_invariant [OF run, of I])
      show "I (progress_callback pr c)" if "I c" for pr c using that by (rule ip)
      show "I (page_change_callback (site w) p c)" if "I c" for p c
        using il [OF that] by (simp add: page_change_callback_def)
      show "I (callback_state \<lparr> the_page = listing w, imageCount = 0, visitedPages = {},
                   justClickedPagination = False,
                   callback_state = \<lparr> writes = [], discoveredLinks =
                    add_links (collectPageImageLinks (document (site w) (listing w))) [] \<rparr> \<rparr>)"
        using i0 by simp
    qed
    with s show ?thesis by simp
  qed
  then show ?thesis unfolding cs by (rule il)
qed

lemma discover_keyed: "discover w cfg = Some cs \<Longrightarrow> keyed (discoveredLinks cs)"
proof (rule discover_invariant [where I = "\<lambda>c. keyed (discoveredLinks c)"])
  show "keyed (discoveredLinks \<lparr> writes = [], discoveredLinks = add_links l [] \<rparr>)" for l
    by (simp add: keyed_add_links keyed_Nil)
  show "keyed (discoveredLinks (progress_callback pr c))" if "keyed (discoveredLinks c)" for pr c
    using that by (simp add: progress_callback_def)
  show "keyed (discoveredLinks (c\<lparr> discoveredLinks := add_links l (discoveredLinks c) \<rparr>))"
    if "keyed (discoveredLinks c)" for l c
    using that by (simp add: keyed_add_links)
qed

lemma discover_plain: "discover w cfg = Some cs \<Longrightarrow> \<forall>x \<in> set (writes cs). plain x"
proof (rule discover_invariant [where I = "\<lambda>c. \<forall>x \<in> set (writes c). plain x"])
  show "\<forall>x \<in> set (writes \<lparr> writes = [], discoveredLinks = add_links l [] \<rparr>). plain x" for l
    by simp
  show "\<forall>x \<in> set (writes (progress_callback pr c)). plain x"
    if "\<forall>x \<in> set (writes c). plain x" for pr c
    using that by (simp add: progress_callback_def plain_def no_update_def)
  show "\<forall>x \<in> set (writes (c\<lparr> discoveredLinks := add_links l (discoveredLinks c) \<rparr>)). plain x"
    if "\<forall>x \<in> set (writes c). plain x" for l c
    using that by simp
qed

lemma scrape_writes:
  assumes "scrape w target cfg = Some (res, ws)"
  shows "(\<exists>e. res = Throws e \<and> ws = [started_update, error_update e]) \<or>
         (\<exists>cs ex imgs. discover w cfg = Some cs \<and>
            ws = started_update # writes cs @ ex @ completed_update (completion_time w) #
                   (case onComplete_error w of None \<Rightarrow> [] | Some e \<Rightarrow> [error_update e]) \<and>
            res = (case onComplete_error w of None \<Rightarrow> Returns imgs | Some e \<Rightarrow> Throws e) \<and>
            length ex = length imgs \<and>
            map u_progress ex =
              map (\<lambda>k. Some (item_progress (length imgs) (Suc k))) [0 ..< length imgs] \<and>
            (\<forall>x \<in> set ex. plain x))"
proof (cases "setup_error w")
  case (Some e)
  with assms show ?thesis by (auto simp: scrape_def started_update_def)
next
  case None
  note su = this
  show ?thesis
  proof (cases "fst (listing_navigation (listing_goto w) target 0 False [])")
    case (Throws e)
    with assms su show ?thesis by (auto simp: scrape_def started_update_def)
  next
    case (Returns ok)
    note nav = this
    show ?thesis
    proof (cases "discover w cfg")
      case None
      with assms su nav show ?thesis by (simp add: scrape_def)
    next
      case (Some cs)
      let ?links = "if maxImages cfg = 0 then map_values (discoveredLinks cs)
                    else take (maxImages cfg) (map_values (discoveredLinks cs))"
      let ?r = "extract_items w (extractDetails cfg) (length ?links) 0 ?links []
                  ([started_update] @ writes cs)"
      from extract_items_writes [of w "extractDetails cfg" "length ?links" 0 ?links "[]"
          "[started_update] @ writes cs"]
      obtain ex where e: "snd ?r = ([started_update] @ writes cs) @ ex"
        and l0: "length (fst ?r) = length ([] :: ScrapedImage list) + length ?links"
        and p0: "map u_progress ex =
                map (\<lambda>k. Some (item_progress (length ?links) k))
                  [Suc 0 ..< Suc 0 + length ?links]"
        and q: "\<forall>x \<in> set ex. plain x"
        by blast
      from l0 have l: "length (fst ?r) = length ?links" by simp
      have "[Suc 0 ..< Suc 0 + length ?links] = map Suc [0 ..< length ?links]"
        by (simp add: map_Suc_upt del: upt_Suc)
      with p0 have p: "map u_progress ex =
                map (\<lambda>k. Some (item_progress (length ?links) (Suc k))) [0 ..< length ?links]"
        by (simp add: comp_def del: upt_Suc)
      from p have "length (map u_progress ex) =
          length (map (\<lambda>k. Some (item_progress (length ?links) (Suc k))) [0 ..< length ?links])"
        by (rule arg_cong)
      then have len: "length ex = length ?links" by simp
      have ws: "ws = snd ?r @ completed_update (completion_time w) #
                   (case onComplete_error w of None \<Rightarrow> [] | Some e \<Rightarrow> [error_update e])"
        and res: "res = (case onComplete_error w of None \<Rightarrow> Returns (fst ?r)
                         | Some e \<Rightarrow> Throws e)"
        using assms su nav Some
        by (auto simp: scrape_def Let_def started_update_def split: option.splits)
      show ?thesis
      proof (intro disjI2 exI [of _ cs] exI [of _ ex] exI [of _ "fst ?r"] conjI)
        show "discover w cfg = Some cs" by (rule Some)
        show "ws = started_update # writes cs @ ex @ completed_update (completion_time w) #
                   (case onComplete_error w of None \<Rightarrow> [] | Some e \<Rightarrow> [error_update e])"
          unfolding ws e by simp
        show "res = (case onComplete_error w of None \<Rightarrow> Returns (fst ?r) | Some e \<Rightarrow> Throws e)"
          by (rule res)
        show "length ex = length (fst ?r)" using len l by simp
        show "map u_progress ex =
              map (\<lambda>k. Some (item_progress (length (fst ?r)) (Suc k))) [0 ..< length (fst ?r)]"
          unfolding l by (rule p)
        show "\<forall>x \<in> set ex. plain x" by (rule q)
      qed
    qed
  qed
qed

lemma status_spread: "status (spread job u) = (case u_status u of None \<Rightarrow> status job | Some v \<Rightarrow> v)"
  by (simp add: spread_def)

lemma update_present:
  "scrapeJobs jid = Some job \<Longrightarrow>
   fst (updateScrapeJob scrapeJobs jid u) jid = Some (spread job u)"
  by (simp add: updateScrapeJob_def Let_def)

lemma history_plain:
  assumes "scrapeJobs jid = Some job" "\<forall>x \<in> set mid. plain x"
  shows "\<exists>store' job'. store' jid = Some job' \<and> status job' = status job \<and>
           job_history scrapeJobs jid (mid @ rest) =
           replicate (length mid) (Some (status job)) @ job_history store' jid rest"
  using assms
proof (induction mid arbitrary: scrapeJobs job)
  case Nil
  then show ?case by auto
next
  case (Cons x mid)
  let ?s = "fst (updateScrapeJob scrapeJobs jid x)"
  from Cons.prems have a: "?s jid = Some (spread job x)" by (simp add: update_present)
  from Cons.prems have b: "status (spread job x) = status job"
    by (simp add: status_spread plain_def)
  from Cons.prems have c: "\<forall>x \<in> set mid. plain x" by simp
  from Cons.IH [where scrapeJobs = ?s and job = "spread job x", OF a c] b
  obtain store' job' where
    "store' jid = Some job'" "status job' = status job"
    "job_history ?s jid (mid @ rest) =
       replicate (length mid) (Some (status job)) @ job_history store' jid rest"
    by auto
  with Cons.prems(1) show ?case by auto
qed

lemma history_terminal:
  assumes job: "scrapeJobs jid = Some job" "status job = pending"
    and mid: "\<forall>x \<in> set mid. plain x"
    and fin: "u_status fin = Some t"
  shows "job_history scrapeJobs jid (started_update # mid @ [fin]) =
         Some pending # replicate (Suc (length mid)) (Some scraping) @ [Some t]"
proof -
  let ?s = "fst (updateScrapeJob scrapeJobs jid started_update)"
  from job have a: "?s jid = Some (spread job started_update)" by (simp add: update_present)
  have b: "status (spread job started_update) = scraping"
    by (simp add: status_spread started_update_def no_update_def)
  from history_plain [where scrapeJobs = ?s and job = "spread job started_update"
      and rest = "[fin]", OF a mid] b
  obtain store' job' where
    s: "store' jid = Some job'" "status job' = scraping"
    and h: "job_history ?s jid (mid @ [fin]) =
       replicate (length mid) (Some scraping) @ job_history store' jid [fin]"
    by auto
  have tail: "job_history store' jid [fin] = [Some scraping, Some t]"
    using s fin by (simp add: update_present status_spread)
  have first: "job_history scrapeJobs jid (started_update # mid @ [fin]) =
               Some pending # job_history ?s jid (mid @ [fin])"
    using job by simp
  show ?thesis unfolding first h tail by (simp add: replicate_append_same)
qed

lemma Math_round_of_int: "Math_round (of_int z) = z"
  by (rule Math_round_eq) simp_all

lemma Math_round_numeral: "Math_round (numeral n) = numeral n"
  using Math_round_of_int [of "numeral n"] by simp

lemma Math_round_0: "Math_round 0 = 0"
  using Math_round_of_int [of 0] by simp

lemma collect_two_items_links:
  "collectPageImageLinks two_items = [link_a1, link_a2, link_a1]"
  by (simp add: collectPageImageLinks_def two_items_def embed_step_def anchor_step_def
      container_step_def truthy_def js_or_def match_image_path_at_def Let_def link_a1_def
      link_a2_def)

lemma add_two_items:
  "add_links [link_a1, link_a2, link_a1] [] = [(''a1'', link_a1), (''a2'', link_a2)]"
  "add_links [link_a1, link_a2, link_a1] [(''a1'', link_a1), (''a2'', link_a2)] =
     [(''a1'', link_a1), (''a2'', link_a2)]"
  by (simp_all add: add_links_def link_a1_def link_a2_def)

lemma discover_still:
  "discover still_world cap4 =
     Some \<lparr> writes = [seventy_five],
            discoveredLinks = [(''a1'', link_a1), (''a2'', link_a2)] \<rparr>"
proof -
  let ?c0 = "\<lparr> writes = [], discoveredLinks = [(''a1'', link_a1), (''a2'', link_a2)] \<rparr>"
  from static_run [OF static_still_site, of 4 1000 progress_callback
      "page_change_callback still_site" "()" ?c0]
  obtain s' where r: "autoScroll_run still_site 4 1000 progress_callback
        (page_change_callback still_site) () ?c0 = Some s'"
    and c: "callback_state s' = progress_callback (first_report still_site 4 ()) ?c0"
    by blast
  have f: "progress_callback (first_report still_site 4 ()) ?c0 =
           \<lparr> writes = [seventy_five], discoveredLinks = [(''a1'', link_a1), (''a2'', link_a2)] \<rparr>"
    by (simp add: progress_callback_def first_report_def still_site_def seventy_five_def
        Math_round_numeral)
  have d: "document still_site q = two_items" for q by (simp add: still_site_def)
  show ?thesis
    by (simp add: discover_def still_world_def cap4_def d collect_two_items_links add_two_items
        r c f)
qed

lemma scrape_still_projection:
  "map_option (\<lambda>(r, ws). (map u_status ws, map u_progress ws)) (scrape still_world target cap4) =
     Some ([Some scraping, None, None, None, Some completed],
           [None, Some 75, Some 50, Some 100, Some 100])"
proof -
  have nav: "fst (listing_navigation (listing_goto still_world) target 0 False []) = Returns ()"
    by (simp add: navigation_listing still_world_def)
  have e: "extractImageData c not_found_page u i h d t = Returns (cached_image c u i h t)" for c u i h d t
    by (simp add: extractImageData_cases parsed_raw_nav_failed not_found_page_def)
  have w: "setup_error still_world = None" "onComplete_error still_world = None"
    "detail_pages still_world u = not_found_page" for u
    by (simp_all add: still_world_def)
  have c: "maxImages cap4 = 4" by (simp add: cap4_def)
  show ?thesis
    by (simp add: scrape_def nav discover_still w c e map_values_def Let_def seventy_five_def
        no_update_def completed_update_def Math_round_numeral)
qed

















subsection \<open>C1: the first tier that supplies a value wins, field by field\<close>



subsection \<open>C2: what the sanitizer rejects and what it returns\<close>



subsection \<open>C3: the transitions of a job's status\<close>

text \<open>
  Claim C3 says that the job store rejects or ignores every transition other than
  pending to scraping to completed or error. \<open>updateScrapeJob\<close> merges whatever it is given:
  a completed job is set back to pending.
\<close>

theorem store_accepts_any_transition:
  "job_history [''job-1'' \<mapsto> finished_job] ''job-1'' [no_update\<lparr> u_status := Some pending \<rparr>] =
     [Some completed, Some pending]"
  by (simp add: updateScrapeJob_def spread_def finished_job_def no_update_def Let_def)

text \<open>
  Claim C3, amended. The job store checks nothing; the order of the statuses comes from
  the calls that \<open>scrape\<close> makes. For a stored job that is pending, every run of \<open>scrape\<close>
  that ends and whose completion callback does not throw takes the job's status from
  pending to scraping with its first update, leaves it at scraping with every further
  update but the last, and sets it to completed or to error with the last update.
\<close>

theorem scrape_status_transitions:
  assumes "scrape w target cfg = Some (res, ws)"
    and "onComplete_error w = None"
    and "scrapeJobs jid = Some job"
    and "status job = pending"
  shows "\<exists>t. (t = completed \<or> t = error) \<and>
             job_history scrapeJobs jid ws =
               Some pending # replicate (length ws - 1) (Some scraping) @ [Some t]"
  using scrape_writes [OF assms(1)]
proof
  assume "\<exists>e. res = Throws e \<and> ws = [started_update, error_update e]"
  then obtain e where ws: "ws = started_update # [] @ [error_update e]" by auto
  have "job_history scrapeJobs jid (started_update # [] @ [error_update e]) =
        Some pending # replicate (Suc (length ([] :: JobUpdate list))) (Some scraping) @ [Some error]"
    by (rule history_terminal [where scrapeJobs = scrapeJobs and jid = jid and job = job,
          OF assms(3,4)]) (simp_all add: error_update_def)
  then have "job_history scrapeJobs jid ws =
        Some pending # replicate (length ws - 1) (Some scraping) @ [Some error]"
    by (simp add: ws del: job_history.simps)
  then show ?thesis by blast
next
  assume "\<exists>cs ex imgs. discover w cfg = Some cs \<and>
            ws = started_update # writes cs @ ex @ completed_update (completion_time w) #
                   (case onComplete_error w of None \<Rightarrow> [] | Some e \<Rightarrow> [error_update e]) \<and>
            res = (case onComplete_error w of None \<Rightarrow> Returns imgs | Some e \<Rightarrow> Throws e) \<and>
            length ex = length imgs \<and>
            map u_progress ex =
              map (\<lambda>k. Some (item_progress (length imgs) (Suc k))) [0 ..< length imgs] \<and>
            (\<forall>x \<in> set ex. plain x)"
  then obtain cs ex where d: "discover w cfg = Some cs"
    and ws: "ws = started_update # (writes cs @ ex) @ [completed_update (completion_time w)]"
    and p: "\<forall>x \<in> set ex. plain x"
    using assms(2) by auto
  from discover_plain [OF d] p have m: "\<forall>x \<in> set (writes cs @ ex). plain x" by auto
  have "job_history scrapeJobs jid
          (started_update # (writes cs @ ex) @ [completed_update (completion_time w)]) =
        Some pending # replicate (Suc (length (writes cs @ ex))) (Some scraping) @ [Some completed]"
    by (rule history_terminal [where scrapeJobs = scrapeJobs and jid = jid and job = job,
          OF assms(3,4) m]) (simp add: completed_update_def)
  then have "job_history scrapeJobs jid ws =
        Some pending # replicate (length ws - 1) (Some scraping) @ [Some completed]"
    by (simp add: ws del: job_history.simps)
  then show ?thesis by blast
qed

theorem scrape_status_transitions_witness:
  "map_option (\<lambda>(r, ws). map u_status ws)
     (scrape still_world ''https://smartframe.com/search'' cap4) =
     Some [Some scraping, None, None, None, Some completed]
   \<and> (\<exists>t. (t = completed \<or> t = error) \<and>
        job_history (fst (createScrapeJob Map.empty ''job-1'' ''2024-01-01T00:00:00.000Z''
                            ''https://smartframe.com/search'' cap4)) ''job-1''
          (snd (the (scrape still_world ''https://smartframe.com/search'' cap4))) =
        Some pending # replicate 4 (Some scraping) @ [Some t])"
proof -
  let ?target = "''https://smartframe.com/search''"
  let ?store = "fst (createScrapeJob Map.empty ''job-1'' ''2024-01-01T00:00:00.000Z'' ?target cap4)"
  let ?job = "snd (createScrapeJob Map.empty ''job-1'' ''2024-01-01T00:00:00.000Z'' ?target cap4)"
  from scrape_still_projection [of ?target]
  obtain res ws where s: "scrape still_world ?target cap4 = Some (res, ws)"
    and st: "map u_status ws = [Some scraping, None, None, None, Some completed]"
    by auto
  from st have "length (map u_status ws) = 5" by simp
  then have len: "length ws = 5" by simp
  have j: "?store ''job-1'' = Some ?job" "status ?job = pending"
    by (simp_all add: createScrapeJob_def Let_def)
  have oc: "onComplete_error still_world = None" by (simp add: still_world_def)
  from scrape_status_transitions [where scrapeJobs = ?store and jid = "''job-1''" and job = ?job,
      OF s oc j]
  obtain t where t: "t = completed \<or> t = error"
    and h: "job_history ?store ''job-1'' ws =
      Some pending # replicate (length ws - 1) (Some scraping) @ [Some t]"
    by blast
  from h len have "job_history ?store ''job-1'' ws =
      Some pending # replicate 4 (Some scraping) @ [Some t]" by simp
  with t s st show ?thesis by auto
qed

subsection \<open>C4: the end of the discovery loop\<close>




subsection \<open>C5: no two discovered references share an item id\<close>

text \<open>
  Claim C5. However many sweeps feed \<open>discoveredLinks\<close> and whatever links they contain,
  the values of the map have pairwise different \<open>imageId\<close>s; so have the references of
  every discovery run that ends, and every capped prefix of them. One sweep alone can
  return an item twice (two embeds with the same id), the map does not.
\<close>

theorem discovered_links_unique:
  "distinct (map link_imageId (map_values (fold add_links sweeps [])))
   \<and> (discover w cfg = Some cs \<longrightarrow>
        distinct (map link_imageId (map_values (discoveredLinks cs))) \<and>
        distinct (map link_imageId (take n (map_values (discoveredLinks cs)))))
   \<and> map link_imageId (collectPageImageLinks two_items) = [''a1'', ''a2'', ''a1'']
   \<and> map link_imageId (map_values (add_links (collectPageImageLinks two_items) [])) =
       [''a1'', ''a2'']"
proof (intro conjI impI)
  show "distinct (map link_imageId (map_values (fold add_links sweeps [])))"
    by (intro keyed_distinct keyed_sweeps keyed_Nil)
next
  assume d: "discover w cfg = Some cs"
  show a: "distinct (map link_imageId (map_values (discoveredLinks cs)))"
    by (rule keyed_distinct [OF discover_keyed [OF d]])
  then have "distinct (take n (map link_imageId (map_values (discoveredLinks cs))))"
    by (rule distinct_take)
  then show "distinct (map link_imageId (take n (map_values (discoveredLinks cs))))"
    by (simp add: take_map)
next
  show "map link_imageId (collectPageImageLinks two_items) = [''a1'', ''a2'', ''a1'']"
    by (rule collect_two_items)
  show "map link_imageId (map_values (add_links (collectPageImageLinks two_items) [])) =
       [''a1'', ''a2'']"
  proof -
    have "link_imageId link_a1 = ''a1''" "link_imageId link_a2 = ''a2''"
      by (simp_all add: link_a1_def link_a2_def)
    then show ?thesis
      by (simp add: collect_two_items_links add_two_items map_values_def)
  qed
qed

theorem discovered_links_unique_witness:
  "discover still_world cap4 =
     Some \<lparr> writes = [seventy_five], discoveredLinks = [(''a1'', link_a1), (''a2'', link_a2)] \<rparr>
   \<and> distinct (map link_imageId (map_values [(''a1'', link_a1), (''a2'', link_a2)]))"
proof -
  let ?cs = "\<lparr> writes = [seventy_five], discoveredLinks = [(''a1'', link_a1), (''a2'', link_a2)] \<rparr>"
  have d: "discover still_world cap4 = Some ?cs" by (rule discover_still)
  from discovered_links_unique [of "[]" still_world cap4 ?cs 0, THEN conjunct2, THEN conjunct1,
      rule_format, OF d]
  have "distinct (map link_imageId (map_values (discoveredLinks ?cs)))" by (rule conjunct1)
  with d show ?thesis by simp
qed

subsection \<open>C6: the per-item extraction never raises\<close>

text \<open>
  Claim C6. \<open>extractImageData\<close> returns a record for every cache, every behaviour of the
  detail page (a rejected \<open>setViewport\<close>, failed navigation attempts, a throwing
  \<open>page.evaluate\<close>) and every reference; the record carries the \<open>imageId\<close> and the \<open>url\<close> of
  the reference. When both navigation attempts fail the result is the record built so
  far (the identity fields and what the cache supplied), and with no cache entry every
  metadata field of it is \<open>null\<close>.
\<close>

theorem extractImageData_never_raises:
  "\<exists>img. extractImageData cache page u i h d t = Returns img \<and> imageId img = i \<and> url img = u \<and>
     (goto_error page 1 \<noteq> None \<and> goto_error page 2 \<noteq> None \<longrightarrow>
        img = cached_image cache u i h t) \<and>
     (goto_error page 1 \<noteq> None \<and> goto_error page 2 \<noteq> None \<and> cache i = None \<longrightarrow>
        (\<forall>f. field f img = None))"
proof -
  let ?c = "cached_image cache u i h t"
  define img where "img = (case parsed_raw page u d of None \<Rightarrow> ?c
                           | Some rawData \<Rightarrow> merge_metadata (parseMetadata rawData) ?c)"
  have r: "extractImageData cache page u i h d t = Returns img"
    by (simp add: extractImageData_cases img_def)
  have ids: "imageId img = i \<and> url img = u"
    by (simp add: img_def cached_image_ids merge_metadata_ids split: option.splits)
  have nav: "img = ?c" if "goto_error page 1 \<noteq> None \<and> goto_error page 2 \<noteq> None"
    using that by (simp add: img_def parsed_raw_nav_failed)
  have nul: "\<forall>f. field f ?c = None" if "cache i = None"
    using that by (simp add: cached_image_def initial_image_def all_Field)
  show ?thesis
  proof (intro exI [of _ img] conjI impI)
    show "extractImageData cache page u i h d t = Returns img" by (rule r)
    show "imageId img = i" using ids by (rule conjunct1)
    show "url img = u" using ids by (rule conjunct2)
    show "img = ?c" if "goto_error page 1 \<noteq> None \<and> goto_error page 2 \<noteq> None"
      using that by (rule nav)
    show "\<forall>f. field f img = None"
      if a: "goto_error page 1 \<noteq> None \<and> goto_error page 2 \<noteq> None \<and> cache i = None"
    proof -
      from a have "img = ?c" by (simp add: nav)
      moreover from a have "\<forall>f. field f ?c = None" by (simp add: nul)
      ultimately show ?thesis by simp
    qed
  qed
qed

theorem extractImageData_never_raises_witness:
  "extractImageData Map.empty
     \<lparr>setViewport_error = None, goto_error = (\<lambda>n. Some ''404''),
      evaluate_result = Throws ''unreachable''\<rparr> ''u1'' ''id1'' ''h1'' True None =
   Returns (cached_image Map.empty ''u1'' ''id1'' ''h1'' None)
   \<and> field Photographer (cached_image Map.empty ''u1'' ''id1'' ''h1'' None) = None"
proof -
  let ?page = "\<lparr>setViewport_error = None, goto_error = (\<lambda>n. Some ''404''),
      evaluate_result = Throws ''unreachable''\<rparr>"
  have g: "goto_error ?page 1 \<noteq> None \<and> goto_error ?page 2 \<noteq> None" by simp
  have c: "goto_error ?page 1 \<noteq> None \<and> goto_error ?page 2 \<noteq> None \<and>
           (Map.empty :: string \<rightharpoonup> CachedData) ''id1'' = None" by simp
  from extractImageData_never_raises [of Map.empty ?page "''u1''" "''id1''" "''h1''" True None]
  obtain img where r: "extractImageData Map.empty ?page ''u1'' ''id1'' ''h1'' True None = Returns img"
    and p: "goto_error ?page 1 \<noteq> None \<and> goto_error ?page 2 \<noteq> None \<longrightarrow>
            img = cached_image Map.empty ''u1'' ''id1'' ''h1'' None"
    and q: "goto_error ?page 1 \<noteq> None \<and> goto_error ?page 2 \<noteq> None \<and>
            (Map.empty :: string \<rightharpoonup> CachedData) ''id1'' = None \<longrightarrow>
            (\<forall>f. field f img = None)"
    by (elim exE conjE) blast
  from p g have e: "img = cached_image Map.empty ''u1'' ''id1'' ''h1'' None" by (rule mp)
  from q c have "\<forall>f. field f img = None" by (rule mp)
  then have "field Photographer img = None" by (rule spec)
  with r e show ?thesis by simp
qed

subsection \<open>C7: navigation retries\<close>

text \<open>
  Claim C7 says that both navigation profiles make up to 3 attempts. The detail profile
  makes 2: on a page where every attempt fails, \<open>extractImageData\<close> calls \<open>page.goto\<close>
  twice, with one delay of 2000 ms between, and then gives up.
\<close>

theorem detail_navigation_two_attempts:
  "detail_navigation (\<lambda>n. Some ''timeout'') ''u'' 1 [] =
     (False, [Goto ''u'' domcontentloaded 60000, Delay 2000, Goto ''u'' domcontentloaded 60000])"
  by (simp add: navigation_detail [unfolded One_nat_def])

text \<open>
  Claim C7, amended. The listing profile (\<open>scrape\<close>) waits for network idle
  (\<open>networkidle2\<close>) with a 60 s timeout and makes up to 3 attempts; after the first failed
  attempt it waits \<open>2000 * 1\<close> ms, after the second \<open>2000 * 2\<close> ms, and the third failure is
  thrown to the caller. The detail profile (\<open>extractImageData\<close>) waits for
  \<open>domcontentloaded\<close> with a 60 s timeout and makes up to 2 attempts with a fixed delay of
  2000 ms between them; after the second failure the loop reports no success and nothing
  is thrown.
\<close>

theorem navigation_retries:
  "listing_navigation goto u 0 False [] =
     (case goto 1 of
        None \<Rightarrow> (Returns (), [Goto u networkidle2 60000])
      | Some e1 \<Rightarrow>
         (case goto 2 of
            None \<Rightarrow> (Returns (), [Goto u networkidle2 60000, Delay (2000 * 1),
                                  Goto u networkidle2 60000])
          | Some e2 \<Rightarrow>
             (case goto 3 of
                None \<Rightarrow> (Returns (), [Goto u networkidle2 60000, Delay (2000 * 1),
                                      Goto u networkidle2 60000, Delay (2000 * 2),
                                      Goto u networkidle2 60000])
              | Some e3 \<Rightarrow> (Throws e3, [Goto u networkidle2 60000, Delay (2000 * 1),
                                        Goto u networkidle2 60000, Delay (2000 * 2),
                                        Goto u networkidle2 60000]))))
   \<and> detail_navigation goto u 1 [] =
     (case goto 1 of
        None \<Rightarrow> (True, [Goto u domcontentloaded 60000])
      | Some e1 \<Rightarrow>
         (case goto 2 of
            None \<Rightarrow> (True, [Goto u domcontentloaded 60000, Delay 2000,
                             Goto u domcontentloaded 60000])
          | Some e2 \<Rightarrow> (False, [Goto u domcontentloaded 60000, Delay 2000,
                                Goto u domcontentloaded 60000])))"
  using navigation_listing navigation_detail by (rule conjI)

subsection \<open>C8: the caption regex fallback on the example caption\<close>



subsection \<open>C9: the progress values written to a job\<close>




subsection \<open>C10: sanitizing an accepted value again\<close>

text \<open>
  Claim C10 says that the sanitizer is idempotent on accepted values. The keyword test
  runs on the raw text, before the tags are removed, so removing a tag can join two
  pieces into a keyword: \<open>scr<b>ipt\<close> is accepted as \<open>script\<close>, and \<open>script\<close> is rejected.
\<close>

theorem cleanTextHelper_not_idempotent:
  "cleanTextHelper (Some ''scr<b>ipt'') = Some ''script''
   \<and> cleanTextHelper (Some ''script'') = None"
  by code_simp

text \<open>
  Claim C10, amended. When the sanitizer returns \<open>v\<close> for \<open>s\<close>, sanitizing \<open>v\<close> again returns
  \<open>v\<close> exactly when \<open>v\<close> itself contains none of the rejected keywords and phrases
  (compared in lower case); in that case the second pass changes nothing.
\<close>

theorem cleanTextHelper_idempotent_when_clean:
  assumes "cleanTextHelper (Some s) = Some v"
  shows "cleanTextHelper (Some v) = Some v \<longleftrightarrow>
         \<not> suspicious (toLowerCase v) \<and> \<not> ui_text (toLowerCase v)"
proof
  assume "cleanTextHelper (Some v) = Some v"
  then show "\<not> suspicious (toLowerCase v) \<and> \<not> ui_text (toLowerCase v)"
    by (simp add: cleanTextHelper_SomeD)
next
  assume k: "\<not> suspicious (toLowerCase v) \<and> \<not> ui_text (toLowerCase v)"
  note d = cleanTextHelper_SomeD [OF assms]
  have fx: "clean_steps v = v"
    unfolding d(1) by (rule clean_steps_fix) (rule clean_steps_no_angle trim_clean_steps)+
  from k d(2,3,4) have "cleanTextHelper (Some v) = Some (clean_steps v)"
    by (intro cleanTextHelper_SomeI) (simp_all add: fx)
  then show "cleanTextHelper (Some v) = Some v" by (simp add: fx)
qed

theorem cleanTextHelper_idempotent_when_clean_witness:
  "cleanTextHelper (Some '' <i>J. Doe</i> '') = Some ''J. Doe''
   \<and> cleanTextHelper (Some ''J. Doe'') = Some ''J. Doe''"
proof -
  have a: "cleanTextHelper (Some '' <i>J. Doe</i> '') = Some ''J. Doe''" by code_simp
  have b: "\<not> suspicious (toLowerCase ''J. Doe'') \<and> \<not> ui_text (toLowerCase ''J. Doe'')"
    by code_simp
  from cleanTextHelper_idempotent_when_clean [OF a] b
  have "cleanTextHelper (Some ''J. Doe'') = Some ''J. Doe''" by blast
  with a show ?thesis by blast
qed

end
